theory Spec2Isabelle
  imports Complex_Main "HOL-Library.Multiset"
begin

section \<open>JavaScript values handled by \<^verbatim>\<open>sub.js\<close>\<close>

text \<open>
  Node identifiers arrive as JSON: a number or a string.  The script never computes with
  them; it converts them to strings (\<^verbatim>\<open>String(n.id)\<close>, property keys of
  \<^verbatim>\<open>childMap\<close>, \<^verbatim>\<open>card.dataset.nodeId\<close>) and tests them for truthiness.
  Numeric identifiers are taken to be integers.
\<close>

datatype jsid = JNum int | JStr string

definition digit_char :: "nat \<Rightarrow> char" where
  "digit_char d = ''0123456789'' ! d"

fun nat_digits :: "nat \<Rightarrow> string" where
  "nat_digits n =
     (if n < 10 then [digit_char n]
      else nat_digits (n div 10) @ [digit_char (n mod 10)])"

declare nat_digits.simps [simp del]

text \<open>\<^verbatim>\<open>String(v)\<close> and the conversion of a value to a property key.\<close>

fun js_String :: "jsid \<Rightarrow> string" where
  "js_String (JNum i) =
     (if i < 0 then CHR ''-'' # nat_digits (nat (- i)) else nat_digits (nat i))"
| "js_String (JStr s) = s"

text \<open>\<^verbatim>\<open>String(currentSelectedId)\<close>, where the variable may hold \<^verbatim>\<open>null\<close>.\<close>

fun js_String_nullable :: "jsid option \<Rightarrow> string" where
  "js_String_nullable None = ''null''"
| "js_String_nullable (Some v) = js_String v"

text \<open>Truthiness: \<^verbatim>\<open>null\<close>, \<^verbatim>\<open>0\<close> and \<^verbatim>\<open>""\<close> are falsy.\<close>

fun truthy :: "jsid option \<Rightarrow> bool" where
  "truthy None = False"
| "truthy (Some (JNum i)) = (i \<noteq> 0)"
| "truthy (Some (JStr s)) = (s \<noteq> [])"

datatype js_error =
    TypeError          \<comment> \<open>calling \<^verbatim>\<open>push\<close> or \<^verbatim>\<open>forEach\<close> on a value that has none\<close>
  | RangeError         \<comment> \<open>maximum call stack size exceeded\<close>
  | FetchRejected      \<comment> \<open>the promise of \<^verbatim>\<open>fetch\<close> rejected: the request did not complete\<close>
  | BodyNotJson        \<comment> \<open>\<^verbatim>\<open>res.json()\<close> rejected\<close>
  | Error string       \<comment> \<open>\<^verbatim>\<open>throw new Error(msg)\<close>\<close>

section \<open>Data model\<close>

text \<open>
  The type parameter \<open>'n\<close> is the type of JavaScript numbers held in \<^verbatim>\<open>qty\<close>; the
  conversion \<^verbatim>\<open>Number(v)\<close> is a parameter of the two operations that call it.
\<close>

record 'n node =
  node_id :: jsid
  parent_id :: "jsid option"
  node_order :: "int option"
  node_name :: string
  node_type :: string
  vehicle :: "string option"
  material :: "string option"
  qty :: "'n option"

record 'n tree =
  sub_name :: string
  nodes :: "'n node list"

section \<open>Tree build: the grouping step of \<^verbatim>\<open>renderSubTree\<close>\<close>

text \<open>\<^verbatim>\<open>(a.order ?? 0) - (b.order ?? 0)\<close>\<close>

definition order_or_0 :: "'n node \<Rightarrow> int" where
  "order_or_0 a = (case node_order a of None \<Rightarrow> 0 | Some v \<Rightarrow> v)"

definition compare_order :: "'n node \<Rightarrow> 'n node \<Rightarrow> int" where
  "compare_order a b = order_or_0 a - order_or_0 b"

text \<open>
  \<^verbatim>\<open>Array.prototype.sort(comparefn)\<close> is a builtin.  ECMAScript requires it to be stable,
  so for a consistent comparison function its result is determined; it is modelled by
  insertion from the right, an element going before the first one it does not exceed.
\<close>

fun insert_sorted :: "('a \<Rightarrow> 'a \<Rightarrow> int) \<Rightarrow> 'a \<Rightarrow> 'a list \<Rightarrow> 'a list" where
  "insert_sorted cmp x [] = [x]"
| "insert_sorted cmp x (y # ys) =
     (if cmp x y \<le> 0 then x # y # ys else y # insert_sorted cmp x ys)"

definition js_sort :: "('a \<Rightarrow> 'a \<Rightarrow> int) \<Rightarrow> 'a list \<Rightarrow> 'a list" where
  "js_sort cmp xs = foldr (insert_sorted cmp) xs []"

text \<open>
  \<^verbatim>\<open>const childMap = {}\<close> is an ordinary object: a key it does not own is looked up in
  \<^verbatim>\<open>Object.prototype\<close>.  Every property found there is truthy and is no array; the
  table gives its \<^verbatim>\<open>length\<close> (the arity of the inherited function; \<^verbatim>\<open>__proto__\<close>
  yields \<^verbatim>\<open>Object.prototype\<close> itself, whose \<^verbatim>\<open>length\<close> is undefined and so fails
  \<^verbatim>\<open>length > 0\<close> exactly as 0 does).
\<close>

definition object_prototype :: "(string \<times> nat) list" where
  "object_prototype =
     [(''constructor'', 1), (''__defineGetter__'', 2), (''__defineSetter__'', 2),
      (''hasOwnProperty'', 1), (''__lookupGetter__'', 1), (''__lookupSetter__'', 1),
      (''isPrototypeOf'', 1), (''propertyIsEnumerable'', 1), (''toString'', 0),
      (''valueOf'', 0), (''__proto__'', 0), (''toLocaleString'', 0)]"

definition inherited :: "string \<Rightarrow> nat option" where
  "inherited k = map_of object_prototype k"

type_synonym 'n childMap = "string \<rightharpoonup> 'n node list"

text \<open>
  \<^verbatim>\<open>const pid = (n.parent_id === null || n.parent_id === undefined) ? "ROOT" : n.parent_id\<close>,
  as the property key it is used for.
\<close>

definition pid_key :: "'n node \<Rightarrow> string" where
  "pid_key n = (case parent_id n of None \<Rightarrow> ''ROOT'' | Some p \<Rightarrow> js_String p)"

text \<open>
  One iteration of \<^verbatim>\<open>nodes.forEach\<close>:
  \<^verbatim>\<open>if (!childMap[pid]) childMap[pid] = []; childMap[pid].push(n);\<close>
  An inherited property is truthy, so no bucket is created and \<^verbatim>\<open>push\<close> is not a
  function.
\<close>

definition push_node :: "'n childMap \<Rightarrow> 'n node \<Rightarrow> js_error + 'n childMap" where
  "push_node cm n =
     (let pid = pid_key n in
      case cm pid of
        Some bucket \<Rightarrow> Inr (cm(pid \<mapsto> bucket @ [n]))
      | None \<Rightarrow>
          (case inherited pid of
             Some _ \<Rightarrow> Inl TypeError
           | None \<Rightarrow> Inr (cm(pid \<mapsto> [n]))))"

fun group_nodes :: "'n node list \<Rightarrow> 'n childMap \<Rightarrow> js_error + 'n childMap" where
  "group_nodes [] cm = Inr cm"
| "group_nodes (n # ns) cm =
     (case push_node cm n of Inl e \<Rightarrow> Inl e | Inr cm' \<Rightarrow> group_nodes ns cm')"

text \<open>\<^verbatim>\<open>Object.keys(childMap).forEach(key => childMap[key].sort(...))\<close>\<close>

definition sort_buckets :: "'n childMap \<Rightarrow> 'n childMap" where
  "sort_buckets cm = (\<lambda>key. map_option (js_sort compare_order) (cm key))"

definition build_childMap :: "'n node list \<Rightarrow> js_error + 'n childMap" where
  "build_childMap ns =
     (case group_nodes ns Map.empty of Inl e \<Rightarrow> Inl e | Inr cm \<Rightarrow> Inr (sort_buckets cm))"

section \<open>Rendering: \<^verbatim>\<open>createNodeCard\<close> and \<^verbatim>\<open>createNodeWrapper\<close>\<close>

text \<open>
  A card keeps what the claims observe: its \<^verbatim>\<open>data-node-id\<close> attribute (the node id as
  a string), the classes \<^verbatim>\<open>assy\<close> and \<^verbatim>\<open>selected\<close>, and the node its click handler
  closes over.  The title, meta line and badge are texts computed from that node.
\<close>

record 'n card =
  card_nodeId :: string
  card_assy :: bool
  card_selected :: bool
  card_node :: "'n node"

definition createNodeCard :: "'n node \<Rightarrow> 'n card" where
  "createNodeCard n =
     \<lparr>card_nodeId = js_String (node_id n), card_assy = (node_type n = ''ASSY''),
      card_selected = False, card_node = n\<rparr>"

text \<open>
  A \<^verbatim>\<open>div.tree-node\<close>: its depth class, the card of its row, and the wrappers inside its
  \<^verbatim>\<open>div.tree-children\<close>, which exists only when there are children.  \<open>w_line\<close> holds the
  custom properties \<^verbatim>\<open>--line-top\<close> and \<^verbatim>\<open>--line-height\<close> of that container once
  \<^verbatim>\<open>adjustTreeLines\<close> has set them.
\<close>

datatype 'n wrapper =
  Wrapper (w_depth: nat) (w_card: "'n card") (w_line: "(real \<times> real) option")
    (w_children: "'n wrapper list")

text \<open>
  \<^verbatim>\<open>const children = childMap[node.id] || []\<close>, followed by
  \<^verbatim>\<open>if (children.length > 0) { ... children.forEach(...) }\<close>: an inherited function of
  positive \<^verbatim>\<open>length\<close> passes the test and has no \<^verbatim>\<open>forEach\<close>.
\<close>

definition children_of :: "'n childMap \<Rightarrow> string \<Rightarrow> js_error + 'n node list" where
  "children_of cm k =
     (case cm k of
        Some bucket \<Rightarrow> Inr bucket
      | None \<Rightarrow>
          (case inherited k of
             Some len \<Rightarrow> if len > 0 then Inl TypeError else Inr []
           | None \<Rightarrow> Inr []))"

text \<open>\<^verbatim>\<open>children.forEach(child => childrenContainer.appendChild(f(child)))\<close>, left to right,
  an exception ending the loop.\<close>

fun wrap_children :: "('a \<Rightarrow> js_error + 'b) \<Rightarrow> 'a list \<Rightarrow> js_error + 'b list" where
  "wrap_children f [] = Inr []"
| "wrap_children f (c # cs) =
     (case f c of
        Inl e \<Rightarrow> Inl e
      | Inr w \<Rightarrow> (case wrap_children f cs of Inl e \<Rightarrow> Inl e | Inr ws \<Rightarrow> Inr (w # ws)))"

text \<open>
  \<^verbatim>\<open>createNodeWrapper(node, depth)\<close>.  The recursion follows the children index and need
  not end; the first argument is the number of stack frames still available, and a call
  with none left throws the \<^verbatim>\<open>RangeError\<close> of an exhausted call stack.
\<close>

fun createNodeWrapper ::
  "nat \<Rightarrow> 'n childMap \<Rightarrow> 'n node \<Rightarrow> nat \<Rightarrow> js_error + 'n wrapper" where
  "createNodeWrapper 0 cm node depth = Inl RangeError"
| "createNodeWrapper (Suc stack) cm node depth =
     (case children_of cm (js_String (node_id node)) of
        Inl e \<Rightarrow> Inl e
      | Inr children \<Rightarrow>
          (case wrap_children (\<lambda>child. createNodeWrapper stack cm child (depth + 1)) children of
             Inl e \<Rightarrow> Inl e
           | Inr ws \<Rightarrow> Inr (Wrapper depth (createNodeCard node) None ws)))"

text \<open>
  \<^verbatim>\<open>roots.forEach(rootNode => container.appendChild(createNodeWrapper(rootNode, 0)))\<close>:
  the wrappers appended before an exception stay in the container.
\<close>

fun append_roots ::
  "nat \<Rightarrow> 'n childMap \<Rightarrow> 'n node list \<Rightarrow> 'n wrapper list \<Rightarrow> 'n wrapper list \<times> js_error option"
  where
  "append_roots stack cm [] acc = (acc, None)"
| "append_roots stack cm (r # rs) acc =
     (case createNodeWrapper stack cm r 0 of
        Inl e \<Rightarrow> (acc, Some e)
      | Inr w \<Rightarrow> append_roots stack cm rs (acc @ [w]))"

text \<open>
  An own bucket of the index, or the empty list: \<^verbatim>\<open>childMap["ROOT"] || []\<close>, the key
  \<^verbatim>\<open>"ROOT"\<close> not being inherited.
\<close>

text \<open>
  The part of \<^verbatim>\<open>renderSubTree\<close> from \<^verbatim>\<open>const nodes = currentTree.nodes\<close> to the last
  \<^verbatim>\<open>appendChild\<close>: what ends up in the emptied container, and the exception if one was
  thrown.
\<close>

definition bucket_or_empty :: "'n childMap \<Rightarrow> string \<Rightarrow> 'n node list" where
  "bucket_or_empty cm k = (case cm k of None \<Rightarrow> [] | Some b \<Rightarrow> b)"

definition render_nodes :: "nat \<Rightarrow> 'n node list \<Rightarrow> 'n wrapper list \<times> js_error option" where
  "render_nodes stack ns =
     (case build_childMap ns of
        Inl e \<Rightarrow> ([], Some e)
      | Inr cm \<Rightarrow> append_roots stack cm (bucket_or_empty cm ''ROOT'') [])"







section \<open>Application state\<close>

text \<open>
  The two variables of the script and the parts of the page it reads and writes.  The page
  itself is not among the sources; it is taken to contain every element the script looks
  up by id, as lines 453 and 463 of the script require of two of them.  Effects that
  leave the script are recorded in the state: \<open>requests\<close> lists the calls of
  \<^verbatim>\<open>fetch\<close> in the order they were issued, \<open>alerts\<close> counts the dialogs opened by
  \<^verbatim>\<open>alert\<close>, \<open>console\<close> lists what \<^verbatim>\<open>console.error\<close> was given, and \<open>frames\<close> counts
  the callbacks handed to \<^verbatim>\<open>requestAnimationFrame\<close>.
\<close>

datatype 'n detail_view =
    DetailEmpty           \<comment> \<open>\<^verbatim>\<open>#detail-empty\<close> shown, \<^verbatim>\<open>#detail-form\<close> hidden\<close>
  | DetailForm "'n node"  \<comment> \<open>the form shown, its inputs set from this node\<close>

datatype 'n root_content =
    Placeholder                 \<comment> \<open>the \<^verbatim>\<open>span\<close> saying that there is no tree data\<close>
  | Wrappers "'n wrapper list"  \<comment> \<open>the child elements of \<^verbatim>\<open>#sub-tree-root\<close>\<close>

datatype caption =
    CaptionLoading | CaptionLoaded string | CaptionLoadFailed
  | CaptionUploading | CaptionUploaded string | CaptionUploadFailed

text \<open>The body of a \<^verbatim>\<open>PATCH\<close>: the object given to \<^verbatim>\<open>JSON.stringify\<close>.\<close>

record 'n payload =
  p_name :: string
  p_type :: string
  p_vehicle :: "string option"
  p_material :: "string option"
  p_qty :: "'n option"

text \<open>
  A call of \<^verbatim>\<open>fetch\<close>, by endpoint.  The path components are kept as they are before
  \<^verbatim>\<open>encodeURIComponent\<close>.
\<close>

datatype 'n request =
    GetSubs                                   \<comment> \<open>\<^verbatim>\<open>GET /api/subs\<close>\<close>
  | GetTree string                            \<comment> \<open>\<^verbatim>\<open>GET /api/subs/{name}/tree\<close>\<close>
  | PostUpload string                         \<comment> \<open>\<^verbatim>\<open>POST /api/upload_excel\<close>, by file name\<close>
  | PatchNode string string "'n payload"      \<comment> \<open>\<^verbatim>\<open>PATCH /api/subs/{name}/nodes/{id}\<close>\<close>
  | GetState                                  \<comment> \<open>\<^verbatim>\<open>GET /api/state\<close>\<close>
  | PostState "string option" "string option" \<comment> \<open>\<^verbatim>\<open>POST /api/state\<close>: \<^verbatim>\<open>sub_name\<close>, \<^verbatim>\<open>selected_id\<close>\<close>

text \<open>
  What a call of \<^verbatim>\<open>fetch\<close> comes back with is an input of the operation that awaits
  it: the promise rejects, or it yields a response with its \<^verbatim>\<open>ok\<close> flag, its text and,
  when the body is JSON, the decoded value.
\<close>

datatype 'a response = Response (ok: bool) (body_text: string) (body_json: "'a option")

datatype 'a fetch_result = Rejected | Fulfilled "'a response"

text \<open>The answer of \<^verbatim>\<open>GET /api/state\<close>.\<close>

record session =
  s_sub_name :: "string option"
  s_selected_id :: "jsid option"

text \<open>The values of the inputs of the detail form when an operation reads them.\<close>

record form =
  detail_name :: string
  detail_type :: string
  detail_vehicle :: string
  detail_material :: string
  detail_qty :: string

record 'n app_state =
  currentTree :: "'n tree option"
  currentSelectedId :: "jsid option"
  tree_root :: "'n root_content"
  detail :: "'n detail_view"
  caption :: caption
  select_options :: "string list"
  select_value :: string
  requests :: "'n request list"
  alerts :: nat
  console :: "js_error list"
  frames :: nat

section \<open>Selection and detail panel\<close>

fun map_cards :: "('n card \<Rightarrow> 'n card) \<Rightarrow> 'n wrapper \<Rightarrow> 'n wrapper" where
  "map_cards f (Wrapper d c l ws) = Wrapper d (f c) l (map (map_cards f) ws)"

fun wrapper_cards :: "'n wrapper \<Rightarrow> 'n card list" where
  "wrapper_cards (Wrapper d c l ws) = c # concat (map wrapper_cards ws)"

text \<open>\<^verbatim>\<open>document.querySelectorAll(".node-card")\<close>: cards exist only under the tree root.\<close>

definition node_cards :: "'n app_state \<Rightarrow> 'n card list" where
  "node_cards st =
     (case tree_root st of Placeholder \<Rightarrow> [] | Wrappers ws \<Rightarrow> concat (map wrapper_cards ws))"

definition set_selected :: "jsid option \<Rightarrow> 'n card \<Rightarrow> 'n card" where
  "set_selected sel c = c\<lparr>card_selected := (card_nodeId c = js_String_nullable sel)\<rparr>"

definition updateSelectionHighlight :: "'n app_state \<Rightarrow> 'n app_state" where
  "updateSelectionHighlight st =
     st\<lparr>tree_root :=
          (case tree_root st of
             Placeholder \<Rightarrow> Placeholder
           | Wrappers ws \<Rightarrow> Wrappers (map (map_cards (set_selected (currentSelectedId st))) ws))\<rparr>"

text \<open>\<^verbatim>\<open>currentTree.nodes?.find(n => String(n.id) === String(currentSelectedId))\<close>\<close>

definition is_selected :: "jsid option \<Rightarrow> 'n node \<Rightarrow> bool" where
  "is_selected sel n \<longleftrightarrow> js_String (node_id n) = js_String_nullable sel"

definition updateDetailPanel :: "'n app_state \<Rightarrow> 'n app_state" where
  "updateDetailPanel st =
     (case currentTree st of
        None \<Rightarrow> st\<lparr>detail := DetailEmpty\<rparr>
      | Some t \<Rightarrow>
          if \<not> truthy (currentSelectedId st) then st\<lparr>detail := DetailEmpty\<rparr>
          else (case List.find (is_selected (currentSelectedId st)) (nodes t) of
                  None \<Rightarrow> st\<lparr>detail := DetailEmpty\<rparr>
                | Some node \<Rightarrow> st\<lparr>detail := DetailForm node\<rparr>))"

definition clearSelection :: "'n app_state \<Rightarrow> 'n app_state" where
  "clearSelection st =
     updateDetailPanel (updateSelectionHighlight (st\<lparr>currentSelectedId := None\<rparr>))"

section \<open>\<^verbatim>\<open>renderSubTree\<close> and \<^verbatim>\<open>adjustTreeLines\<close>\<close>

definition renderSubTree :: "nat \<Rightarrow> 'n app_state \<Rightarrow> 'n app_state \<times> js_error option" where
  "renderSubTree stack st =
     (let st1 = updateDetailPanel (st\<lparr>tree_root := Wrappers [], currentSelectedId := None\<rparr>) in
      case currentTree st1 of
        None \<Rightarrow> (st1\<lparr>tree_root := Placeholder\<rparr>, None)
      | Some t \<Rightarrow>
          if nodes t = [] then (st1\<lparr>tree_root := Placeholder\<rparr>, None)
          else (case render_nodes stack (nodes t) of
                  (ws, Some e) \<Rightarrow> (st1\<lparr>tree_root := Wrappers ws\<rparr>, Some e)
                | (ws, None) \<Rightarrow>
                    (st1\<lparr>tree_root := Wrappers ws, frames := frames st1 + 1\<rparr>, None)))"

text \<open>
  \<^verbatim>\<open>adjustTreeLines\<close> measures the page.  The measurement is a parameter: \<open>mid pos\<close> is
  \<^verbatim>\<open>rect.top + rect.height / 2 - parentRect.top\<close> for the row of the wrapper at position
  \<open>pos\<close>, the list of child indices leading to it.  A container made by
  \<^verbatim>\<open>createNodeWrapper\<close> has at least one row.
\<close>

fun adjust_wrapper :: "(nat list \<Rightarrow> real) \<Rightarrow> nat list \<Rightarrow> 'n wrapper \<Rightarrow> 'n wrapper"
  and adjust_wrappers :: "(nat list \<Rightarrow> real) \<Rightarrow> nat list \<Rightarrow> nat \<Rightarrow> 'n wrapper list \<Rightarrow> 'n wrapper list"
  where
  "adjust_wrapper mid pos (Wrapper d c l ws) =
     Wrapper d c
       (if ws = [] then l
        else (let firstMid = mid (pos @ [0]); lastMid = mid (pos @ [length ws - 1])
              in Some (firstMid, max 0 (lastMid - firstMid))))
       (adjust_wrappers mid pos 0 ws)"
| "adjust_wrappers mid pos i [] = []"
| "adjust_wrappers mid pos i (w # ws) =
     adjust_wrapper mid (pos @ [i]) w # adjust_wrappers mid pos (Suc i) ws"

definition adjustTreeLines :: "(nat list \<Rightarrow> real) \<Rightarrow> 'n app_state \<Rightarrow> 'n app_state" where
  "adjustTreeLines mid st =
     st\<lparr>tree_root :=
          (case tree_root st of
             Placeholder \<Rightarrow> Placeholder
           | Wrappers ws \<Rightarrow> Wrappers (adjust_wrappers mid [] 0 ws))\<rparr>"

section \<open>Session state on the server\<close>

text \<open>\<^verbatim>\<open>saveSessionState(subName, selectedId)\<close>: one \<^verbatim>\<open>POST\<close>; a rejection is logged.\<close>

definition saveSessionState ::
  "string option \<Rightarrow> string option \<Rightarrow> unit fetch_result \<Rightarrow> 'n app_state \<Rightarrow> 'n app_state" where
  "saveSessionState subName selectedId r st =
     (let st1 = st\<lparr>requests := requests st @ [PostState subName selectedId]\<rparr> in
      case r of
        Rejected \<Rightarrow> st1\<lparr>console := console st1 @ [FetchRejected]\<rparr>
      | Fulfilled res \<Rightarrow> st1)"

text \<open>The click handler that \<^verbatim>\<open>createNodeCard\<close> gives the card of \<open>node\<close>.\<close>

definition card_click :: "'n node \<Rightarrow> unit fetch_result \<Rightarrow> 'n app_state \<Rightarrow> 'n app_state" where
  "card_click node r st =
     (let st1 = updateDetailPanel
                  (updateSelectionHighlight (st\<lparr>currentSelectedId := Some (node_id node)\<rparr>)) in
      case currentTree st1 of
        None \<Rightarrow> st1
      | Some t \<Rightarrow> saveSessionState (Some (sub_name t)) (Some (js_String (node_id node))) r st1)"

section \<open>Local apply and persisted apply\<close>

text \<open>\<^verbatim>\<open>String.prototype.trim\<close>, for the white space of ASCII.\<close>

definition is_white_space :: "char \<Rightarrow> bool" where
  "is_white_space c \<longleftrightarrow> c \<in> set (map char_of [9, 10, 11, 12, 13, 32 :: nat])"

definition js_trim :: "string \<Rightarrow> string" where
  "js_trim s = rev (dropWhile is_white_space (rev (dropWhile is_white_space s)))"

text \<open>Assignment to the fields of the first element that satisfies \<open>P\<close>: the object that
  \<^verbatim>\<open>find\<close> returned.\<close>

fun update_first :: "('a \<Rightarrow> bool) \<Rightarrow> ('a \<Rightarrow> 'a) \<Rightarrow> 'a list \<Rightarrow> 'a list" where
  "update_first P f [] = []"
| "update_first P f (x # xs) = (if P x then f x # xs else x # update_first P f xs)"

definition local_edit :: "(string \<Rightarrow> 'n) \<Rightarrow> form \<Rightarrow> 'n node \<Rightarrow> 'n node" where
  "local_edit Number fm node =
     (let qtyVal = js_trim (detail_qty fm) in
      node\<lparr>node_name := detail_name fm, node_type := detail_type fm,
           vehicle := Some (detail_vehicle fm), material := Some (detail_material fm),
           qty := (if qtyVal = [] then None else Some (Number qtyVal))\<rparr>)"

text \<open>
  \<^verbatim>\<open>applyLocalChanges\<close>.  No script of the repository defines \<^verbatim>\<open>refreshJsonPreview\<close>, so
  the test on its type fails.  The result carries the exception that
  \<^verbatim>\<open>renderSubTree\<close> may throw.
\<close>

definition applyLocalChanges ::
  "(string \<Rightarrow> 'n) \<Rightarrow> form \<Rightarrow> nat \<Rightarrow> 'n app_state \<Rightarrow> 'n app_state \<times> js_error option" where
  "applyLocalChanges Number fm stack st =
     (case currentTree st of
        None \<Rightarrow> (st, None)
      | Some t \<Rightarrow>
          if \<not> truthy (currentSelectedId st) then (st, None)
          else (case List.find (is_selected (currentSelectedId st)) (nodes t) of
                  None \<Rightarrow> (st, None)
                | Some node \<Rightarrow>
                    (let nodes' = update_first (is_selected (currentSelectedId st))
                                    (local_edit Number fm) (nodes t);
                         keepId = node_id node
                     in case renderSubTree stack (st\<lparr>currentTree := Some (t\<lparr>nodes := nodes'\<rparr>)\<rparr>) of
                          (st1, Some e) \<Rightarrow> (st1, Some e)
                        | (st1, None) \<Rightarrow>
                            (updateDetailPanel
                               (updateSelectionHighlight (st1\<lparr>currentSelectedId := Some keepId\<rparr>)),
                             None))))"

text \<open>\<^verbatim>\<open>value || null\<close> of an input.\<close>

definition or_null :: "string \<Rightarrow> string option" where
  "or_null v = (if v = [] then None else Some v)"

definition patch_payload :: "(string \<Rightarrow> 'n) \<Rightarrow> form \<Rightarrow> 'n payload" where
  "patch_payload Number fm =
     \<lparr>p_name = detail_name fm, p_type = detail_type fm,
      p_vehicle = or_null (detail_vehicle fm), p_material = or_null (detail_material fm),
      p_qty = (let v = detail_qty fm in if v = [] then None else Some (Number v))\<rparr>"

text \<open>
  \<^verbatim>\<open>applyAndPersistSelectedNode\<close>, given what its \<^verbatim>\<open>PATCH\<close> comes back with.  The guard
  \<^verbatim>\<open>currentSelectedId == null\<close> is true of \<^verbatim>\<open>null\<close> and \<^verbatim>\<open>undefined\<close> only.
\<close>

definition applyAndPersistSelectedNode ::
  "(string \<Rightarrow> 'n) \<Rightarrow> form \<Rightarrow> nat \<Rightarrow> 'n tree fetch_result \<Rightarrow> 'n app_state \<Rightarrow>
     'n app_state \<times> js_error option" where
  "applyAndPersistSelectedNode Number fm stack r st =
     (case (currentTree st, currentSelectedId st) of
        (Some t, Some sel) \<Rightarrow>
          (let nodeId = js_String sel;
               st1 = st\<lparr>requests :=
                        requests st @ [PatchNode (sub_name t) nodeId (patch_payload Number fm)]\<rparr>
           in case r of
                Rejected \<Rightarrow> (st1, Some FetchRejected)
              | Fulfilled res \<Rightarrow>
                  if \<not> ok res then (st1, Some (Error (body_text res)))
                  else (case body_json res of
                          None \<Rightarrow> (st1, Some BodyNotJson)
                        | Some t' \<Rightarrow>
                            (case renderSubTree stack (st1\<lparr>currentTree := Some t'\<rparr>) of
                               (st2, Some e) \<Rightarrow> (st2, Some e)
                             | (st2, None) \<Rightarrow>
                                 (updateDetailPanel (st2\<lparr>currentSelectedId := Some (JStr nodeId)\<rparr>),
                                  None))))
      | _ \<Rightarrow> (st, None))"


text \<open>
  \<^verbatim>\<open>bindDetailPanelEvents\<close> (line 359) registers a listener of its own on the same
  button.  It calls \<^verbatim>\<open>applyAndPersistSelectedNode\<close> and drops the promise: a second,
  independent persisted apply, whose exception nothing catches.
\<close>

definition apply_click_unguarded ::
  "(string \<Rightarrow> 'n) \<Rightarrow> form \<Rightarrow> nat \<Rightarrow> 'n tree fetch_result \<Rightarrow> 'n app_state \<Rightarrow> 'n app_state" where
  "apply_click_unguarded Number fm stack r st =
     fst (applyAndPersistSelectedNode Number fm stack r st)"

section \<open>Loading a tree\<close>

text \<open>\<^verbatim>\<open>loadSubTree\<close>: the \<^verbatim>\<open>catch\<close> block sets the caption and logs.\<close>

definition load_failed :: "js_error \<Rightarrow> 'n app_state \<Rightarrow> 'n app_state" where
  "load_failed e st = st\<lparr>caption := CaptionLoadFailed, console := console st @ [e]\<rparr>"

definition loadSubTree :: "nat \<Rightarrow> 'n tree fetch_result \<Rightarrow> 'n app_state \<Rightarrow> 'n app_state" where
  "loadSubTree stack r st =
     (let subName = select_value st in
      if subName = [] then st
      else
        (let st1 = st\<lparr>caption := CaptionLoading, requests := requests st @ [GetTree subName]\<rparr> in
         case r of
           Rejected \<Rightarrow> load_failed FetchRejected st1
         | Fulfilled res \<Rightarrow>
             if \<not> ok res then load_failed (Error ''status'') st1
             else (case body_json res of
                     None \<Rightarrow> load_failed BodyNotJson st1
                   | Some t \<Rightarrow>
                       (case renderSubTree stack
                               (st1\<lparr>currentTree := Some t, caption := CaptionLoaded subName\<rparr>) of
                          (st2, Some e) \<Rightarrow> load_failed e st2
                        | (st2, None) \<Rightarrow> st2))))"

text \<open>\<^verbatim>\<open>resetSelectedNode\<close>\<close>

definition resetSelectedNode :: "nat \<Rightarrow> 'n tree fetch_result \<Rightarrow> 'n app_state \<Rightarrow> 'n app_state" where
  "resetSelectedNode stack r st =
     (if currentTree st = None \<or> \<not> truthy (currentSelectedId st) then st
      else loadSubTree stack r st)"

text \<open>
  The \<^verbatim>\<open>change\<close> listener that \<^verbatim>\<open>loadSubList\<close> gives \<^verbatim>\<open>#sub-select\<close>, the user having
  chosen the option \<open>name\<close>.
\<close>

definition sub_select_change ::
  "string \<Rightarrow> nat \<Rightarrow> 'n tree fetch_result \<Rightarrow> 'n app_state \<Rightarrow> 'n app_state" where
  "sub_select_change name stack r st =
     loadSubTree stack r (clearSelection (st\<lparr>select_value := name\<rparr>))"

text \<open>\<^verbatim>\<open>handleExcelFileSelected(file)\<close>, by the name of the file.\<close>

definition upload_failed :: "js_error \<Rightarrow> 'n app_state \<Rightarrow> 'n app_state" where
  "upload_failed e st = st\<lparr>caption := CaptionUploadFailed, console := console st @ [e]\<rparr>"

definition handleExcelFileSelected ::
  "string \<Rightarrow> nat \<Rightarrow> 'n tree fetch_result \<Rightarrow> unit fetch_result \<Rightarrow> 'n app_state \<Rightarrow> 'n app_state"
  where
  "handleExcelFileSelected file stack r r_save st =
     (let st1 = st\<lparr>caption := CaptionUploading, requests := requests st @ [PostUpload file]\<rparr> in
      case r of
        Rejected \<Rightarrow> upload_failed FetchRejected st1
      | Fulfilled res \<Rightarrow>
          if \<not> ok res then upload_failed (Error ''status'') st1
          else (case body_json res of
                  None \<Rightarrow> upload_failed BodyNotJson st1
                | Some t \<Rightarrow>
                    (case renderSubTree stack
                            (st1\<lparr>currentTree := Some t, caption := CaptionUploaded file\<rparr>) of
                       (st2, Some e) \<Rightarrow> upload_failed e st2
                     | (st2, None) \<Rightarrow> saveSessionState (Some (sub_name t)) None r_save st2)))"

section \<open>Start of the page\<close>

text \<open>
  \<^verbatim>\<open>loadSubList\<close>: the options of \<^verbatim>\<open>#sub-select\<close> are replaced by the names received; a
  \<^verbatim>\<open>select\<close> shows its first option.  The response's \<^verbatim>\<open>ok\<close> flag is not consulted.
\<close>

definition loadSubList :: "string list fetch_result \<Rightarrow> 'n app_state \<Rightarrow> 'n app_state" where
  "loadSubList r st =
     (let st1 = st\<lparr>select_options := [], select_value := [], requests := requests st @ [GetSubs]\<rparr> in
      case r of
        Rejected \<Rightarrow> st1\<lparr>console := console st1 @ [FetchRejected]\<rparr>
      | Fulfilled res \<Rightarrow>
          (case body_json res of
             None \<Rightarrow> st1\<lparr>console := console st1 @ [BodyNotJson]\<rparr>
           | Some subs \<Rightarrow>
               st1\<lparr>select_options := subs,
                   select_value := (case subs of [] \<Rightarrow> [] | name # _ \<Rightarrow> name)\<rparr>))"

text \<open>
  \<^verbatim>\<open>restoreSessionState\<close>, given what \<^verbatim>\<open>GET /api/state\<close> and, if it is issued, the
  \<^verbatim>\<open>GET\<close> of the tree come back with.  \<^verbatim>\<open>!state.sub_name\<close> is true of \<^verbatim>\<open>null\<close> and of
  the empty string.  Whatever is thrown inside is caught and logged.
\<close>

definition restore_failed :: "js_error \<Rightarrow> 'n app_state \<Rightarrow> 'n app_state" where
  "restore_failed e st = st\<lparr>console := console st @ [e]\<rparr>"

definition restoreSessionState ::
  "nat \<Rightarrow> session fetch_result \<Rightarrow> 'n tree fetch_result \<Rightarrow> 'n app_state \<Rightarrow> 'n app_state" where
  "restoreSessionState stack r_state r_tree st =
     (let st1 = st\<lparr>requests := requests st @ [GetState]\<rparr> in
      case r_state of
        Rejected \<Rightarrow> restore_failed FetchRejected st1
      | Fulfilled res \<Rightarrow>
          if \<not> ok res then st1
          else (case body_json res of
                  None \<Rightarrow> restore_failed BodyNotJson st1
                | Some state \<Rightarrow>
                    (case s_sub_name state of
                       None \<Rightarrow> st1
                     | Some name \<Rightarrow>
                         if name = [] then st1
                         else
                           (let st2 = st1\<lparr>requests := requests st1 @ [GetTree name]\<rparr> in
                            case r_tree of
                              Rejected \<Rightarrow> restore_failed FetchRejected st2
                            | Fulfilled treeRes \<Rightarrow>
                                if \<not> ok treeRes then st2
                                else (case body_json treeRes of
                                        None \<Rightarrow> restore_failed BodyNotJson st2
                                      | Some t \<Rightarrow>
                                          (case renderSubTree stack (st2\<lparr>currentTree := Some t\<rparr>) of
                                             (st3, Some e) \<Rightarrow> restore_failed e st3
                                           | (st3, None) \<Rightarrow>
                                               if truthy (s_selected_id state)
                                               then updateDetailPanel
                                                      (st3\<lparr>currentSelectedId := s_selected_id state\<rparr>)
                                               else st3))))))"

text \<open>
  The listener of \<^verbatim>\<open>DOMContentLoaded\<close>: the two variables start as \<^verbatim>\<open>null\<close>,
  \<^verbatim>\<open>loadSubList\<close> is called, listeners are bound, and \<^verbatim>\<open>restoreSessionState\<close> is called.
  The two calls touch different parts of the state, so the order in which their responses
  arrive does not matter; \<open>page\<close> is the state of the page as loaded.
\<close>

definition startup ::
  "nat \<Rightarrow> string list fetch_result \<Rightarrow> session fetch_result \<Rightarrow> 'n tree fetch_result \<Rightarrow>
     'n app_state \<Rightarrow> 'n app_state" where
  "startup stack r_subs r_state r_tree page =
     restoreSessionState stack r_state r_tree
       (loadSubList r_subs (page\<lparr>currentTree := None, currentSelectedId := None, requests := []\<rparr>))"

section \<open>Notions used in the statements\<close>


text \<open>A step of the restoration that failed: as before, or the body could not be decoded.\<close>

definition fetch_failed :: "'a fetch_result \<Rightarrow> bool" where
  "fetch_failed r \<longleftrightarrow>
     (case r of Rejected \<Rightarrow> True | Fulfilled res \<Rightarrow> \<not> ok res \<or> body_json res = None)"

text \<open>Nothing the user can see or the script can read has changed: all but the logs.\<close>

definition same_ui :: "'n app_state \<Rightarrow> 'n app_state \<Rightarrow> bool" where
  "same_ui st st' \<longleftrightarrow>
     currentTree st' = currentTree st \<and> currentSelectedId st' = currentSelectedId st \<and>
     tree_root st' = tree_root st \<and> detail st' = detail st \<and> caption st' = caption st \<and>
     select_options st' = select_options st \<and> select_value st' = select_value st \<and>
     alerts st' = alerts st \<and> frames st' = frames st"

section \<open>The tree build on a store of objects\<close>

text \<open>
  In the script \<^verbatim>\<open>currentTree.nodes\<close> is an array of references to node objects, every
  bucket of \<^verbatim>\<open>childMap\<close> is an array of the same references, and
  \<^verbatim>\<open>Array.prototype.sort\<close> reorders an array in place.  Whether a render leaves the tree
  alone depends on which arrays are written, so the grouping and sorting steps are
  modelled once more with references: objects live in cells, \<open>next_ref\<close> is the first
  reference not yet given out, and \<^verbatim>\<open>[]\<close> takes it.
\<close>

type_synonym ref = nat

datatype 'n obj = NodeObj "'n node" | ArrayObj "ref list"

record 'n store =
  cells :: "ref \<rightharpoonup> 'n obj"
  next_ref :: ref

text \<open>The array literal \<^verbatim>\<open>[]\<close>.\<close>

definition new_array :: "'n store \<Rightarrow> 'n store \<times> ref" where
  "new_array s =
     (s\<lparr>cells := (cells s)(next_ref s \<mapsto> ArrayObj []), next_ref := Suc (next_ref s)\<rparr>,
      next_ref s)"

text \<open>\<^verbatim>\<open>a.push(r)\<close>: the store afterwards, and the exception if \<open>a\<close> is no array.\<close>

definition array_push :: "ref \<Rightarrow> ref \<Rightarrow> 'n store \<Rightarrow> 'n store \<times> js_error option" where
  "array_push a r s =
     (case cells s a of
        Some (ArrayObj rs) \<Rightarrow> (s\<lparr>cells := (cells s)(a \<mapsto> ArrayObj (rs @ [r]))\<rparr>, None)
      | _ \<Rightarrow> (s, Some TypeError))"

text \<open>
  \<^verbatim>\<open>childMap\<close> with references: its own properties in the order of their creation, each
  the reference of a bucket.
\<close>

type_synonym ref_childMap = "(string \<times> ref) list"

text \<open>
  One iteration of \<^verbatim>\<open>nodes.forEach\<close>, for the element \<open>r\<close> of the array: the store and
  the index as the iteration leaves them, also when it throws.
\<close>

definition push_node_ref ::
  "ref \<Rightarrow> 'n store \<times> ref_childMap \<Rightarrow> ('n store \<times> ref_childMap) \<times> js_error option" where
  "push_node_ref r sc =
     (case sc of (s, cm) \<Rightarrow>
        (case cells s r of
           Some (NodeObj n) \<Rightarrow>
             (let pid = pid_key n in
              case map_of cm pid of
                Some a \<Rightarrow> (case array_push a r s of (s', err) \<Rightarrow> ((s', cm), err))
              | None \<Rightarrow>
                  (case inherited pid of
                     Some _ \<Rightarrow> ((s, cm), Some TypeError)
                   | None \<Rightarrow>
                       (case new_array s of (s1, a) \<Rightarrow>
                          (case array_push a r s1 of (s', err) \<Rightarrow>
                             ((s', cm @ [(pid, a)]), err)))))
         | _ \<Rightarrow> ((s, cm), Some TypeError)))"

fun group_refs ::
  "ref list \<Rightarrow> 'n store \<times> ref_childMap \<Rightarrow> ('n store \<times> ref_childMap) \<times> js_error option"
  where
  "group_refs [] sc = (sc, None)"
| "group_refs (r # rs) sc =
     (case push_node_ref r sc of
        (sc', Some e) \<Rightarrow> (sc', Some e)
      | (sc', None) \<Rightarrow> group_refs rs sc')"

text \<open>\<^verbatim>\<open>(a.order ?? 0) - (b.order ?? 0)\<close> for two elements of a bucket.\<close>

definition order_at :: "'n store \<Rightarrow> ref \<Rightarrow> int" where
  "order_at s r = (case cells s r of Some (NodeObj n) \<Rightarrow> order_or_0 n | _ \<Rightarrow> 0)"

text \<open>\<^verbatim>\<open>childMap[key].sort(...)\<close>: the array at \<open>a\<close> is overwritten with its sorted self.\<close>

definition array_sort :: "ref \<Rightarrow> 'n store \<Rightarrow> 'n store" where
  "array_sort a s =
     (case cells s a of
        Some (ArrayObj rs) \<Rightarrow>
          s\<lparr>cells := (cells s)(a \<mapsto> ArrayObj (js_sort (\<lambda>x y. order_at s x - order_at s y) rs))\<rparr>
      | _ \<Rightarrow> s)"

fun sort_bucket_refs :: "ref_childMap \<Rightarrow> 'n store \<Rightarrow> 'n store" where
  "sort_bucket_refs [] s = s"
| "sort_bucket_refs ((key, a) # cm) s = sort_bucket_refs cm (array_sort a s)"

text \<open>
  The build for the array of nodes at \<open>nodes_ref\<close>: the store and the index it leaves,
  and the exception if it threw.
\<close>

definition build_store ::
  "ref \<Rightarrow> 'n store \<Rightarrow> ('n store \<times> ref_childMap) \<times> js_error option" where
  "build_store nodes_ref s =
     (case cells s nodes_ref of
        Some (ArrayObj rs) \<Rightarrow>
          (case group_refs rs (s, []) of
             ((s', cm), Some e) \<Rightarrow> ((s', cm), Some e)
           | ((s', cm), None) \<Rightarrow> ((sort_bucket_refs cm s', cm), None))
      | _ \<Rightarrow> ((s, []), Some TypeError))"

text \<open>The node objects that an array refers to, in its order.\<close>

definition read_array :: "'n store \<Rightarrow> ref \<Rightarrow> 'n obj option list" where
  "read_array s a = (case cells s a of Some (ArrayObj rs) \<Rightarrow> map (cells s) rs | _ \<Rightarrow> [])"

text \<open>Every bucket of the index was created at or after the reference \<open>n0\<close>.\<close>

definition fresh_buckets :: "ref \<Rightarrow> ref_childMap \<Rightarrow> bool" where
  "fresh_buckets n0 cm \<longleftrightarrow> (\<forall>a \<in> snd ` set cm. n0 \<le> a)"

text \<open>The index that a store and its buckets stand for: each bucket read as a list of nodes.\<close>

definition node_at :: "'n store \<Rightarrow> ref \<Rightarrow> 'n node option" where
  "node_at s r = (case cells s r of Some (NodeObj n) \<Rightarrow> Some n | _ \<Rightarrow> None)"

definition read_bucket :: "'n store \<Rightarrow> ref \<Rightarrow> 'n node list option" where
  "read_bucket s b =
     (case cells s b of Some (ArrayObj rs) \<Rightarrow> those (map (node_at s) rs) | _ \<Rightarrow> None)"

definition index_of_store :: "'n store \<Rightarrow> ref_childMap \<Rightarrow> 'n childMap" where
  "index_of_store s cm = (\<lambda>k. case map_of cm k of None \<Rightarrow> None | Some b \<Rightarrow> read_bucket s b)"

text \<open>
  What holds of the store \<open>s\<close> and the index \<open>cm\<close> while the build runs from the store
  \<open>s0\<close>: the objects of \<open>s0\<close> are untouched, and the buckets are different new arrays of
  references to nodes of \<open>s0\<close>.
\<close>

definition store_inv :: "'n store \<Rightarrow> 'n store \<Rightarrow> ref_childMap \<Rightarrow> bool" where
  "store_inv s0 s cm \<longleftrightarrow>
     next_ref s0 \<le> next_ref s \<and> (\<forall>x < next_ref s0. cells s x = cells s0 x) \<and>
     distinct (map snd cm) \<and>
     (\<forall>b \<in> snd ` set cm. next_ref s0 \<le> b \<and> b < next_ref s \<and>
        (\<exists>brs. cells s b = Some (ArrayObj brs) \<and>
           (\<forall>r \<in> set brs. r < next_ref s0 \<and> node_at s0 r \<noteq> None)))"

section \<open>Example data\<close>

definition node_of :: "jsid \<Rightarrow> jsid option \<Rightarrow> int option \<Rightarrow> int node" where
  "node_of i p ord =
     \<lparr>node_id = i, parent_id = p, node_order = ord, node_name = ''part'',
      node_type = ''PART'', vehicle = None, material = None, qty = None\<rparr>"

text \<open>A root and three children of it, listed out of order, one without \<^verbatim>\<open>order\<close>.\<close>

definition siblings_example :: "int node list" where
  "siblings_example =
     [node_of (JNum 3) (Some (JNum 1)) (Some 2),
      node_of (JNum 2) (Some (JNum 1)) None,
      node_of (JNum 1) None (Some 0),
      node_of (JNum 4) (Some (JNum 1)) (Some 0)]"


text \<open>A single root whose id is the string \<^verbatim>\<open>"ROOT"\<close>.\<close>

definition root_named_example :: "int node list" where
  "root_named_example = [node_of (JStr ''ROOT'') None None]"



text \<open>
  The tree of the scenarios: dataset \<^verbatim>\<open>X\<close> with a root of id 1 and a child of id 2.
\<close>

definition example_tree :: "int tree" where
  "example_tree =
     \<lparr>sub_name = ''X'',
      nodes = [node_of (JNum 1) None (Some 0), node_of (JNum 2) (Some (JNum 1)) (Some 0)]\<rparr>"

text \<open>A page that has just been loaded, with dataset \<^verbatim>\<open>X\<close> chosen in the list.\<close>

definition fresh_page :: "int app_state" where
  "fresh_page =
     \<lparr>currentTree = None, currentSelectedId = None, tree_root = Wrappers [],
      detail = DetailEmpty, caption = CaptionLoading, select_options = [''X''],
      select_value = ''X'', requests = [], alerts = 0, console = [], frames = 0\<rparr>"

definition tree_response :: "int tree fetch_result" where
  "tree_response = Fulfilled (Response True [] (Some example_tree))"

definition no_content :: "unit fetch_result" where
  "no_content = Fulfilled (Response True [] None)"

text \<open>The tree loaded and nothing selected; then the card of node 2 clicked.\<close>

definition loaded_state :: "int app_state" where
  "loaded_state = loadSubTree 8 tree_response fresh_page"

definition selected_state :: "int app_state" where
  "selected_state = card_click (node_of (JNum 2) (Some (JNum 1)) (Some 0)) no_content loaded_state"

text \<open>
  The value of \<^verbatim>\<open>Number(v)\<close> for a string of decimal digits, used as the conversion in the
  examples.
\<close>

definition digits_value :: "string \<Rightarrow> int" where
  "digits_value v = foldl (\<lambda>a c. 10 * a + (of_char c - 48)) 0 v"

definition form_with_qty :: "string \<Rightarrow> form" where
  "form_with_qty v =
     \<lparr>detail_name = ''part'', detail_type = ''PART'', detail_vehicle = [],
      detail_material = ''steel'', detail_qty = v\<rparr>"

text \<open>A stored session naming dataset \<^verbatim>\<open>X\<close> and node 2.\<close>

definition stored_session :: session where
  "stored_session = \<lparr>s_sub_name = Some ''X'', s_selected_id = Some (JStr ''2'')\<rparr>"

text \<open>The tree of dataset \<^verbatim>\<open>X\<close> in a store: two node objects and the array of them.\<close>

definition example_store :: "int store" where
  "example_store =
     \<lparr>cells = [0 \<mapsto> NodeObj (node_of (JNum 1) None (Some 0)),
               1 \<mapsto> NodeObj (node_of (JNum 2) (Some (JNum 1)) (Some 0)),
               2 \<mapsto> ArrayObj [0, 1]],
      next_ref = 3\<rparr>"

text \<open>Dataset \<^verbatim>\<open>X\<close> with the single root of id \<^verbatim>\<open>"ROOT"\<close>, as the server's answer.\<close>

definition root_named_tree :: "int tree" where
  "root_named_tree = \<lparr>sub_name = ''X'', nodes = root_named_example\<rparr>"

definition session_response :: "session fetch_result" where
  "session_response = Fulfilled (Response True [] (Some stored_session))"

definition subs_response :: "string list fetch_result" where
  "subs_response = Fulfilled (Response True [] (Some [''X'']))"

section \<open>Properties of the tree build\<close>

subsection \<open>Evaluation rules for concrete inputs\<close>

lemmas build_eval =
  build_childMap_def push_node_def pid_key_def inherited_def object_prototype_def
  nat_digits.simps digit_char_def sort_buckets_def js_sort_def compare_order_def
  order_or_0_def node_of_def

subsection \<open>The comparison function orders by effective \<^verbatim>\<open>order\<close>\<close>

lemma insert_sorted_compare_order:
  "insert_sorted compare_order x ys = insort_key order_or_0 x ys"
  by (induction ys) (simp_all add: compare_order_def)

lemma js_sort_compare_order: "js_sort compare_order xs = sort_key order_or_0 xs"
  by (induction xs) (simp_all add: js_sort_def sort_key_def insert_sorted_compare_order)

subsection \<open>What a bucket holds\<close>

lemma push_node_lookup:
  assumes "push_node cm n = Inr cm'"
  shows "cm' k =
    (if pid_key n = k then Some ((case cm k of None \<Rightarrow> [] | Some b \<Rightarrow> b) @ [n]) else cm k)"
  using assms by (auto simp: push_node_def Let_def split: option.splits)

lemma group_nodes_lookup:
  "group_nodes ns cm = Inr cm' \<Longrightarrow>
   cm' k =
     (if filter (\<lambda>n. pid_key n = k) ns = [] then cm k
      else Some ((case cm k of None \<Rightarrow> [] | Some b \<Rightarrow> b) @ filter (\<lambda>n. pid_key n = k) ns))"
proof (induction ns arbitrary: cm)
  case Nil
  then show ?case by simp
next
  case (Cons n ns)
  from Cons.prems obtain cm1
    where p: "push_node cm n = Inr cm1" and g: "group_nodes ns cm1 = Inr cm'"
    by (auto split: sum.splits)
  show ?case
    using Cons.IH [OF g] push_node_lookup [OF p, of k]
    by (auto split: option.splits)
qed

lemma build_childMap_lookup:
  assumes "build_childMap ns = Inr cm"
  shows "cm k =
    (if filter (\<lambda>n. pid_key n = k) ns = [] then None
     else Some (sort_key order_or_0 (filter (\<lambda>n. pid_key n = k) ns)))"
proof -
  from assms obtain cm0
    where g: "group_nodes ns Map.empty = Inr cm0" and c: "cm = sort_buckets cm0"
    by (auto simp: build_childMap_def split: sum.splits)
  show ?thesis
    using group_nodes_lookup [OF g, of k]
    by (simp add: c sort_buckets_def js_sort_compare_order)
qed

text \<open>
  Claim C4.  Whenever the tree build produces its index, every bucket of it is in
  non-decreasing effective \<^verbatim>\<open>order\<close> (a missing \<^verbatim>\<open>order\<close> counting as 0), and for
  every value \<open>v\<close> the siblings of effective order \<open>v\<close> stand in the bucket in the order
  in which the flat list has them: the sort is stable.
\<close>

theorem C4_buckets_sorted_stable:
  assumes "build_childMap ns = Inr cm" and "cm key = Some bucket"
  shows "sorted (map order_or_0 bucket) \<and>
         (\<forall>v. filter (\<lambda>n. order_or_0 n = v) bucket =
              filter (\<lambda>n. order_or_0 n = v) (filter (\<lambda>n. pid_key n = key) ns))"
proof -
  have b: "bucket = sort_key order_or_0 (filter (\<lambda>n. pid_key n = key) ns)"
    using build_childMap_lookup [OF assms(1), of key] assms(2) by (simp split: if_splits)
  show ?thesis
    unfolding b by (simp add: sort_key_stable)
qed

lemma siblings_example_bucket:
  "\<exists>cm. build_childMap siblings_example = Inr cm \<and>
     cm ''1'' = Some [node_of (JNum 2) (Some (JNum 1)) None,
                     node_of (JNum 4) (Some (JNum 1)) (Some 0),
                     node_of (JNum 3) (Some (JNum 1)) (Some 2)]"
  by (simp add: build_eval siblings_example_def)

theorem C4_buckets_sorted_stable_witness:
  "\<exists>cm bucket. build_childMap siblings_example = Inr cm \<and> cm ''1'' = Some bucket \<and>
     map node_id bucket = [JNum 2, JNum 4, JNum 3] \<and>
     sorted (map order_or_0 bucket) \<and>
     filter (\<lambda>n. order_or_0 n = 0) bucket =
       filter (\<lambda>n. order_or_0 n = 0) (filter (\<lambda>n. pid_key n = ''1'') siblings_example)"
proof -
  from siblings_example_bucket obtain cm
    where b: "build_childMap siblings_example = Inr cm"
      and c: "cm ''1'' = Some [node_of (JNum 2) (Some (JNum 1)) None,
                              node_of (JNum 4) (Some (JNum 1)) (Some 0),
                              node_of (JNum 3) (Some (JNum 1)) (Some 2)]"
    by blast
  from C4_buckets_sorted_stable [OF b c] show ?thesis
    using b c by (auto simp: node_of_def)
qed

subsection \<open>Lists of enclosing nodes\<close>








subsection \<open>The loops of the renderer\<close>




lemma wrap_children_all2:
  "wrap_children f cs = Inr ws \<Longrightarrow> list_all2 (\<lambda>c w. f c = Inr w) cs ws"
  by (induction cs arbitrary: ws) (auto split: sum.splits)






subsection \<open>What \<^verbatim>\<open>createNodeWrapper\<close> returns, and when\<close>




subsection \<open>The rendered forest\<close>

lemma group_nodes_total:
  "\<forall>n \<in> set ns. inherited (pid_key n) = None \<Longrightarrow> \<exists>cm'. group_nodes ns cm = Inr cm'"
proof (induction ns arbitrary: cm)
  case Nil
  then show ?case by simp
next
  case (Cons n ns)
  from Cons.prems have "inherited (pid_key n) = None" by simp
  then have "\<exists>cm1. push_node cm n = Inr cm1"
    by (cases "cm (pid_key n)") (simp_all add: push_node_def Let_def)
  then obtain cm1 where "push_node cm n = Inr cm1" ..
  with Cons show ?case by simp
qed

lemma build_childMap_total:
  "\<forall>n \<in> set ns. inherited (pid_key n) = None \<Longrightarrow> \<exists>cm. build_childMap ns = Inr cm"
  using group_nodes_total [of ns Map.empty]
  by (auto simp: build_childMap_def)




subsection \<open>Termination of the recursive render\<close>

lemma own_child_overflow:
  "children_of cm (js_String (node_id n)) = Inr (n # cs) \<Longrightarrow>
   createNodeWrapper stack cm n d = Inl RangeError"
  by (induction stack arbitrary: d) simp_all

lemma root_named_overflow: "render_nodes stack root_named_example = ([], Some RangeError)"
proof -
  let ?n = "node_of (JStr ''ROOT'') None None :: int node"
  have "\<exists>cm. build_childMap root_named_example = Inr cm"
    by (rule build_childMap_total) (simp add: root_named_example_def build_eval)
  then obtain cm where B: "build_childMap root_named_example = Inr cm" ..
  have L: "cm ''ROOT'' = Some [?n]"
    using build_childMap_lookup [OF B, of "''ROOT''"]
    by (simp add: root_named_example_def build_eval)
  then have "children_of cm (js_String (node_id ?n)) = Inr (?n # [])"
    by (simp add: children_of_def node_of_def)
  then have "createNodeWrapper stack cm ?n 0 = Inl RangeError"
    by (rule own_child_overflow)
  then show ?thesis
    by (simp add: render_nodes_def B bucket_or_empty_def L)
qed





subsection \<open>Buckets, orphans and duplicates\<close>









section \<open>Properties of the operations\<close>

subsection \<open>What the panel, the highlight and the render leave alone\<close>

lemma updateDetailPanel_frame:
  "currentTree (updateDetailPanel st) = currentTree st"
  "currentSelectedId (updateDetailPanel st) = currentSelectedId st"
  "tree_root (updateDetailPanel st) = tree_root st"
  "caption (updateDetailPanel st) = caption st"
  "select_options (updateDetailPanel st) = select_options st"
  "select_value (updateDetailPanel st) = select_value st"
  "requests (updateDetailPanel st) = requests st"
  "alerts (updateDetailPanel st) = alerts st"
  "console (updateDetailPanel st) = console st"
  "frames (updateDetailPanel st) = frames st"
  by (simp_all add: updateDetailPanel_def split: option.splits)

lemma updateSelectionHighlight_frame:
  "currentTree (updateSelectionHighlight st) = currentTree st"
  "currentSelectedId (updateSelectionHighlight st) = currentSelectedId st"
  "detail (updateSelectionHighlight st) = detail st"
  "caption (updateSelectionHighlight st) = caption st"
  "select_options (updateSelectionHighlight st) = select_options st"
  "select_value (updateSelectionHighlight st) = select_value st"
  "requests (updateSelectionHighlight st) = requests st"
  "alerts (updateSelectionHighlight st) = alerts st"
  "console (updateSelectionHighlight st) = console st"
  "frames (updateSelectionHighlight st) = frames st"
  by (simp_all add: updateSelectionHighlight_def)

lemmas frame_simps = updateDetailPanel_frame updateSelectionHighlight_frame

lemma detail_unselected:
  "\<not> truthy (currentSelectedId st) \<Longrightarrow> detail (updateDetailPanel st) = DetailEmpty"
  by (simp add: updateDetailPanel_def split: option.splits)

lemma renderSubTree_frame:
  "currentTree (fst (renderSubTree stack st)) = currentTree st"
  "currentSelectedId (fst (renderSubTree stack st)) = None"
  "detail (fst (renderSubTree stack st)) = DetailEmpty"
  "caption (fst (renderSubTree stack st)) = caption st"
  "select_options (fst (renderSubTree stack st)) = select_options st"
  "select_value (fst (renderSubTree stack st)) = select_value st"
  "requests (fst (renderSubTree stack st)) = requests st"
  "alerts (fst (renderSubTree stack st)) = alerts st"
  "console (fst (renderSubTree stack st)) = console st"
  by (simp_all add: renderSubTree_def Let_def detail_unselected frame_simps
      split: option.splits prod.splits)

lemma renderSubTree_of_tree:
  "tree_root (fst (renderSubTree stack st)) =
     (case currentTree st of
        None \<Rightarrow> Placeholder
      | Some t \<Rightarrow> if nodes t = [] then Placeholder else Wrappers (fst (render_nodes stack (nodes t))))"
  "snd (renderSubTree stack st) =
     (case currentTree st of
        None \<Rightarrow> None
      | Some t \<Rightarrow> if nodes t = [] then None else snd (render_nodes stack (nodes t)))"
  by (simp_all add: renderSubTree_def Let_def updateDetailPanel_frame
      split: option.splits prod.splits)

lemma adjustTreeLines_frame:
  "currentTree (adjustTreeLines mid st) = currentTree st"
  "currentSelectedId (adjustTreeLines mid st) = currentSelectedId st"
  "detail (adjustTreeLines mid st) = detail st"
  "requests (adjustTreeLines mid st) = requests st"
  by (simp_all add: adjustTreeLines_def)

subsection \<open>Replacing the tree clears the selection\<close>

lemma renderSubTree_result:
  assumes "renderSubTree stack st = (st', err)"
  shows "currentTree st' = currentTree st" "currentSelectedId st' = None"
    "detail st' = DetailEmpty" "caption st' = caption st"
    "select_options st' = select_options st" "select_value st' = select_value st"
    "requests st' = requests st" "alerts st' = alerts st" "console st' = console st"
  using renderSubTree_frame [of stack st] by (simp_all add: assms)

lemma saveSessionState_frame:
  "currentTree (saveSessionState a b r st) = currentTree st"
  "currentSelectedId (saveSessionState a b r st) = currentSelectedId st"
  "tree_root (saveSessionState a b r st) = tree_root st"
  "detail (saveSessionState a b r st) = detail st"
  "alerts (saveSessionState a b r st) = alerts st"
  by (simp_all add: saveSessionState_def Let_def split: fetch_result.splits)

lemma clearSelection_cleared:
  "currentSelectedId (clearSelection st) = None" "detail (clearSelection st) = DetailEmpty"
  by (simp_all add: clearSelection_def detail_unselected frame_simps)

lemma loadSubTree_keeps_cleared:
  assumes "currentSelectedId st = None" and "detail st = DetailEmpty"
  shows "currentSelectedId (loadSubTree stack r st) = None"
    and "detail (loadSubTree stack r st) = DetailEmpty"
  using assms
  by (auto simp: loadSubTree_def Let_def load_failed_def dest: renderSubTree_result(2,3)
      split: fetch_result.splits option.splits prod.splits)

lemma loadSubTree_success:
  fixes st :: "'n app_state" and stack body t c name
  defines "st' \<equiv> loadSubTree stack (Fulfilled (Response True body (Some t))) (st\<lparr>select_value := c # name\<rparr>)"
  shows "currentTree st' = Some t" "currentSelectedId st' = None" "detail st' = DetailEmpty"
  unfolding st'_def
  by (auto simp: loadSubTree_def Let_def load_failed_def dest: renderSubTree_result(1,2,3)
      split: option.splits prod.splits)

lemma handleExcelFileSelected_success:
  fixes st :: "'n app_state" and fname stack body t r_save
  defines "st' \<equiv> handleExcelFileSelected fname stack (Fulfilled (Response True body (Some t))) r_save st"
  shows "currentTree st' = Some t" "currentSelectedId st' = None" "detail st' = DetailEmpty"
  unfolding st'_def
  by (auto simp: handleExcelFileSelected_def Let_def upload_failed_def saveSessionState_frame
      dest: renderSubTree_result(1,2,3) split: option.splits prod.splits)

text \<open>
  Claim C6.  Every run of \<^verbatim>\<open>renderSubTree\<close> leaves \<^verbatim>\<open>currentSelectedId\<close> null and the
  detail panel in its empty state, whatever was selected before and whether or not the
  render completes.  So does choosing a dataset in the list after a card was clicked,
  whatever the request for the tree comes back with; and when a tree is received, by
  \<^verbatim>\<open>loadSubTree\<close> or by an upload, it becomes the current tree with nothing selected, also
  when it has a node of the id selected before.
\<close>

theorem C6_replacement_clears_selection:
  fixes st :: "'n app_state"
  shows
  "currentSelectedId (fst (renderSubTree stack st)) = None \<and>
   detail (fst (renderSubTree stack st)) = DetailEmpty \<and>
   currentSelectedId (sub_select_change name stack r (card_click a r_save st)) = None \<and>
   detail (sub_select_change name stack r (card_click a r_save st)) = DetailEmpty \<and>
   currentTree (loadSubTree stack (Fulfilled (Response True body (Some t)))
      (st\<lparr>select_value := c # name\<rparr>)) = Some t \<and>
   currentSelectedId (loadSubTree stack (Fulfilled (Response True body (Some t)))
      (st\<lparr>select_value := c # name\<rparr>)) = None \<and>
   detail (loadSubTree stack (Fulfilled (Response True body (Some t)))
      (st\<lparr>select_value := c # name\<rparr>)) = DetailEmpty \<and>
   currentTree (handleExcelFileSelected fname stack
      (Fulfilled (Response True body (Some t))) r_save st) = Some t \<and>
   currentSelectedId (handleExcelFileSelected fname stack
      (Fulfilled (Response True body (Some t))) r_save st) = None \<and>
   detail (handleExcelFileSelected fname stack
      (Fulfilled (Response True body (Some t))) r_save st) = DetailEmpty"
proof -
  have "currentSelectedId (sub_select_change name stack r (card_click a r_save st)) = None"
    and "detail (sub_select_change name stack r (card_click a r_save st)) = DetailEmpty"
    unfolding sub_select_change_def
    by (rule loadSubTree_keeps_cleared; rule clearSelection_cleared)+
  then show ?thesis
    by (simp add: renderSubTree_frame loadSubTree_success handleExcelFileSelected_success)
qed

subsection \<open>Persisted apply: the request and its failure\<close>




lemma selected_state_vars:
  "currentTree selected_state = Some example_tree"
  "currentSelectedId selected_state = Some (JNum 2)"
  by code_simp+





subsection \<open>Local apply and persisted apply\<close>



lemma local_edit_keeps:
  "node_id (local_edit Number fm n) = node_id n"
  "parent_id (local_edit Number fm n) = parent_id n"
  "node_order (local_edit Number fm n) = node_order n"
  by (simp_all add: local_edit_def Let_def)








subsection \<open>The selected marker after a persisted apply\<close>

lemma list_all2_right:
  "list_all2 (\<lambda>x y. Q y) xs ys \<Longrightarrow> \<forall>y \<in> set ys. Q y"
  by (induction rule: list_all2_induct) auto

lemma createNodeWrapper_unselected:
  "createNodeWrapper stack cm n d = Inr w \<Longrightarrow> \<forall>c \<in> set (wrapper_cards w). \<not> card_selected c"
proof (induction stack arbitrary: n d w)
  case 0
  then show ?case by simp
next
  case (Suc stack)
  from Suc.prems obtain cs ws
    where ws: "wrap_children (\<lambda>c. createNodeWrapper stack cm c (d + 1)) cs = Inr ws"
      and w: "w = Wrapper d (createNodeCard n) None ws"
    by (auto split: sum.splits)
  from wrap_children_all2 [OF ws]
  have "list_all2 (\<lambda>c w'. createNodeWrapper stack cm c (d + 1) = Inr w') cs ws" .
  then have "list_all2 (\<lambda>c w'. \<forall>c \<in> set (wrapper_cards w'). \<not> card_selected c) cs ws"
    by (rule list.rel_mono_strong) (rule Suc.IH)
  then have "\<forall>w' \<in> set ws. \<forall>c \<in> set (wrapper_cards w'). \<not> card_selected c"
    by (rule list_all2_right)
  then show ?case
    by (auto simp: w createNodeCard_def)
qed

lemma append_roots_unselected:
  "append_roots stack cm rs acc = (ws, err) \<Longrightarrow>
   \<forall>w \<in> set acc. \<forall>c \<in> set (wrapper_cards w). \<not> card_selected c \<Longrightarrow>
   \<forall>w \<in> set ws. \<forall>c \<in> set (wrapper_cards w). \<not> card_selected c"
proof (induction rs arbitrary: acc)
  case Nil
  then show ?case by simp
next
  case (Cons r rs)
  show ?case
  proof (cases "createNodeWrapper stack cm r 0")
    case (Inl e)
    with Cons.prems show ?thesis by simp
  next
    case (Inr w)
    with Cons.prems(1) have "append_roots stack cm rs (acc @ [w]) = (ws, err)" by simp
    moreover from createNodeWrapper_unselected [OF Inr] Cons.prems(2)
    have "\<forall>w \<in> set (acc @ [w]). \<forall>c \<in> set (wrapper_cards w). \<not> card_selected c" by auto
    ultimately show ?thesis by (rule Cons.IH)
  qed
qed

lemma render_nodes_unselected:
  "render_nodes stack ns = (ws, err) \<Longrightarrow> \<forall>w \<in> set ws. \<forall>c \<in> set (wrapper_cards w). \<not> card_selected c"
  by (cases "build_childMap ns")
     (auto simp: render_nodes_def dest!: append_roots_unselected)

text \<open>After \<^verbatim>\<open>renderSubTree\<close> no card bears the marker.\<close>

lemma renderSubTree_unselected:
  assumes "renderSubTree stack st = (st', err)"
  shows "\<forall>c \<in> set (node_cards st'). \<not> card_selected c"
proof -
  have r: "tree_root st' = tree_root (fst (renderSubTree stack st))"
    by (simp add: assms)
  show ?thesis
  proof (cases "\<exists>t. currentTree st = Some t \<and> nodes t \<noteq> []")
    case False
    then have "tree_root st' = Placeholder"
      unfolding r renderSubTree_of_tree(1) by (auto split: option.splits)
    then show ?thesis by (simp add: node_cards_def)
  next
    case True
    then obtain t where t: "currentTree st = Some t" "nodes t \<noteq> []" by blast
    have "render_nodes stack (nodes t) =
        (fst (render_nodes stack (nodes t)), snd (render_nodes stack (nodes t)))"
      by simp
    from render_nodes_unselected [OF this]
    have "\<forall>w \<in> set (fst (render_nodes stack (nodes t))).
            \<forall>c \<in> set (wrapper_cards w). \<not> card_selected c" .
    moreover have "tree_root st' = Wrappers (fst (render_nodes stack (nodes t)))"
      unfolding r renderSubTree_of_tree(1) by (simp add: t)
    ultimately show ?thesis by (simp add: node_cards_def)
  qed
qed

lemma map_cards_cards: "wrapper_cards (map_cards f w) = map f (wrapper_cards w)"
proof (induction w)
  case (Wrapper d c l ws)
  have h: "map (\<lambda>w. wrapper_cards (map_cards f w)) ws = map (\<lambda>w. map f (wrapper_cards w)) ws"
    by (rule map_cong) (simp_all add: Wrapper.IH)
  show ?case by (simp add: map_concat comp_def h)
qed

text \<open>After \<^verbatim>\<open>updateSelectionHighlight\<close> the marked cards are those of the selected id.\<close>

lemma node_cards_highlight:
  "node_cards (updateSelectionHighlight st) = map (set_selected (currentSelectedId st)) (node_cards st)"
proof (cases "tree_root st")
  case Placeholder
  then show ?thesis by (simp add: node_cards_def updateSelectionHighlight_def)
next
  case (Wrappers ws)
  show ?thesis
    by (simp add: node_cards_def updateSelectionHighlight_def Wrappers map_concat comp_def
        map_cards_cards)
qed

lemma highlight_marks_selected:
  "\<forall>c \<in> set (node_cards (updateSelectionHighlight st)).
     card_selected c \<longleftrightarrow> card_nodeId c = js_String_nullable (currentSelectedId st)"
  by (auto simp: node_cards_highlight set_selected_def)

lemma node_cards_updateDetailPanel: "node_cards (updateDetailPanel st) = node_cards st"
  by (simp add: node_cards_def updateDetailPanel_frame)

text \<open>
  A persisted apply that returns normally leaves the selection set and every card
  unmarked; a local apply that returns normally from its re-render leaves the marker on
  the cards of the selected id.
\<close>

lemma persisted_apply_unmarks:
  assumes "applyAndPersistSelectedNode Number fm stack r st = (st', None)"
    and "currentTree st = Some t" and "currentSelectedId st = Some sel"
  shows "currentSelectedId st' = Some (JStr (js_String sel))"
    and "\<forall>c \<in> set (node_cards st'). \<not> card_selected c"
proof -
  from assms obtain st2 err t' st1
    where r: "renderSubTree stack (st1\<lparr>currentTree := Some t'\<rparr>) = (st2, err)"
      and st': "st' = updateDetailPanel (st2\<lparr>currentSelectedId := Some (JStr (js_String sel))\<rparr>)"
    by (auto simp: applyAndPersistSelectedNode_def Let_def
        split: fetch_result.splits option.splits prod.splits if_splits)
  show "currentSelectedId st' = Some (JStr (js_String sel))"
    by (simp add: st' frame_simps)
  have "node_cards st' = node_cards st2"
    by (simp add: st' node_cards_def frame_simps)
  with renderSubTree_unselected [OF r]
  show "\<forall>c \<in> set (node_cards st'). \<not> card_selected c"
    by simp
qed

lemma local_apply_marks:
  assumes "applyLocalChanges Number fm stack st = (st', None)"
    and "currentTree st = Some t" and "truthy (currentSelectedId st)"
    and "List.find (is_selected (currentSelectedId st)) (nodes t) = Some node"
  shows "\<forall>c \<in> set (node_cards st').
     card_selected c \<longleftrightarrow> card_nodeId c = js_String_nullable (currentSelectedId st')"
proof -
  from assms obtain st1 where
    "st' = updateDetailPanel (updateSelectionHighlight (st1\<lparr>currentSelectedId := Some (node_id node)\<rparr>))"
    by (auto simp: applyLocalChanges_def Let_def split: prod.splits option.splits)
  then have "node_cards st' =
      node_cards (updateSelectionHighlight (st1\<lparr>currentSelectedId := Some (node_id node)\<rparr>))"
    and "currentSelectedId st' = Some (node_id node)"
    by (simp_all add: node_cards_def frame_simps)
  with highlight_marks_selected [of "st1\<lparr>currentSelectedId := Some (node_id node)\<rparr>"]
  show ?thesis by simp
qed

text \<open>
  Claim C5 at the input where the code departs from it.  Node 2 is selected and a persisted
  apply succeeds, the server answering with the same tree: afterwards
  \<^verbatim>\<open>currentSelectedId\<close> is the string \<^verbatim>\<open>"2"\<close>, node 2 is in the current tree and has a
  card, and no card bears the marker.  \<^verbatim>\<open>applyAndPersistSelectedNode\<close> refreshes the detail
  panel after restoring the selection, not the highlight.
\<close>

theorem C5_persisted_apply_leaves_no_card_selected:
  "currentSelectedId (fst (applyAndPersistSelectedNode digits_value (form_with_qty ''5'') 8
      tree_response selected_state)) = Some (JStr ''2'') \<and>
   currentTree (fst (applyAndPersistSelectedNode digits_value (form_with_qty ''5'') 8
      tree_response selected_state)) = Some example_tree \<and>
   map (\<lambda>n. js_String (node_id n)) (nodes example_tree) = [''1'', ''2''] \<and>
   map card_nodeId (node_cards (fst (applyAndPersistSelectedNode digits_value
      (form_with_qty ''5'') 8 tree_response selected_state))) = [''1'', ''2''] \<and>
   filter card_selected (node_cards (fst (applyAndPersistSelectedNode digits_value
      (form_with_qty ''5'') 8 tree_response selected_state))) = []"
  by code_simp

text \<open>The sibling path: local apply on the same input marks the card of node 2.\<close>

lemma local_apply_marks_selected_card:
  "map card_nodeId (filter card_selected (node_cards (fst (applyLocalChanges digits_value
      (form_with_qty ''5'') 8 selected_state)))) = [''2'']"
  by code_simp

subsection \<open>Restoring the session at startup\<close>

lemma loadSubList_frame:
  "currentTree (loadSubList r st) = currentTree st"
  "currentSelectedId (loadSubList r st) = currentSelectedId st"
  "tree_root (loadSubList r st) = tree_root st"
  "detail (loadSubList r st) = detail st"
  "alerts (loadSubList r st) = alerts st"
  "requests (loadSubList r st) = requests st @ [GetSubs]"
  by (simp_all add: loadSubList_def Let_def split: fetch_result.splits option.splits)

lemma restore_requests:
  "requests (restoreSessionState stack r_state r_tree st) = requests st @ [GetState] \<or>
   (\<exists>name. requests (restoreSessionState stack r_state r_tree st) =
      requests st @ [GetState, GetTree name])"
  by (auto simp: restoreSessionState_def Let_def restore_failed_def frame_simps
      dest: renderSubTree_result(7) split: fetch_result.splits option.splits prod.splits)

lemma startup_restores_once:
  "count_list (requests (startup stack r_subs r_state r_tree page)) GetState = 1"
  using restore_requests [of stack r_state r_tree
      "loadSubList r_subs (page\<lparr>currentTree := None, currentSelectedId := None, requests := []\<rparr>)"]
  by (auto simp: startup_def loadSubList_frame)

lemma restore_no_dataset:
  "restoreSessionState stack
     (Fulfilled (Response True body (Some \<lparr>s_sub_name = None, s_selected_id = sel\<rparr>))) r_tree st =
   st\<lparr>requests := requests st @ [GetState]\<rparr>"
  by (simp add: restoreSessionState_def)

lemma restore_state_failed:
  assumes "fetch_failed r_state"
  shows "same_ui st (restoreSessionState stack r_state r_tree st)"
    and "requests (restoreSessionState stack r_state r_tree st) = requests st @ [GetState]"
  using assms
  by (auto simp: restoreSessionState_def Let_def restore_failed_def fetch_failed_def same_ui_def
      split: fetch_result.splits)

lemma restore_tree_failed:
  assumes "s_sub_name state = Some name" and "name \<noteq> []" and "fetch_failed r_tree"
  shows "same_ui st (restoreSessionState stack (Fulfilled (Response True body (Some state))) r_tree st)"
    and "requests (restoreSessionState stack (Fulfilled (Response True body (Some state))) r_tree st) =
           requests st @ [GetState, GetTree name]"
  using assms
  by (auto simp: restoreSessionState_def Let_def restore_failed_def fetch_failed_def same_ui_def
      split: fetch_result.splits)

lemma restore_success:
  fixes st :: "'n app_state" and body body' :: string
  assumes "s_sub_name state = Some name" and "name \<noteq> []"
    and "renderSubTree stack
           (st\<lparr>requests := requests st @ [GetState, GetTree name], currentTree := Some t\<rparr>) =
         (st', None)"
  defines "res \<equiv> restoreSessionState stack (Fulfilled (Response True body (Some state)))
                    (Fulfilled (Response True body' (Some t))) st"
  shows "requests res = requests st @ [GetState, GetTree name]"
    and "currentTree res = Some t" and "tree_root res = tree_root st'"
    and "truthy (s_selected_id state) \<Longrightarrow> currentSelectedId res = s_selected_id state \<and>
           detail res = (case List.find (is_selected (s_selected_id state)) (nodes t) of
                           None \<Rightarrow> DetailEmpty | Some node \<Rightarrow> DetailForm node)"
    and "\<not> truthy (s_selected_id state) \<Longrightarrow> currentSelectedId res = None \<and> detail res = DetailEmpty"
proof -
  have r: "res = (if truthy (s_selected_id state)
                  then updateDetailPanel (st'\<lparr>currentSelectedId := s_selected_id state\<rparr>)
                  else st')"
    using assms(1-3) by (simp add: res_def restoreSessionState_def Let_def)
  note f = renderSubTree_result [OF assms(3)]
  show "requests res = requests st @ [GetState, GetTree name]"
    using f(7) by (simp add: r frame_simps)
  show "currentTree res = Some t"
    using f(1) by (simp add: r frame_simps)
  show "tree_root res = tree_root st'"
    by (simp add: r frame_simps)
  show "currentSelectedId res = s_selected_id state \<and>
           detail res = (case List.find (is_selected (s_selected_id state)) (nodes t) of
                           None \<Rightarrow> DetailEmpty | Some node \<Rightarrow> DetailForm node)"
    if "truthy (s_selected_id state)"
    using that f(1) by (simp add: r updateDetailPanel_def split: option.splits)
  show "currentSelectedId res = None \<and> detail res = DetailEmpty"
    if "\<not> truthy (s_selected_id state)"
    using that f(2,3) by (simp add: r)
qed

lemma startup_default:
  assumes "fetch_failed r_state \<or>
     (\<exists>body state name. r_state = Fulfilled (Response True body (Some state)) \<and>
        s_sub_name state = Some name \<and> name \<noteq> [] \<and> fetch_failed r_tree)"
  shows "currentTree (startup stack r_subs r_state r_tree page) = None \<and>
         currentSelectedId (startup stack r_subs r_state r_tree page) = None \<and>
         tree_root (startup stack r_subs r_state r_tree page) = tree_root page \<and>
         detail (startup stack r_subs r_state r_tree page) = detail page \<and>
         alerts (startup stack r_subs r_state r_tree page) = alerts page"
proof -
  let ?st = "loadSubList r_subs (page\<lparr>currentTree := None, currentSelectedId := None, requests := []\<rparr>)"
  have "same_ui ?st (restoreSessionState stack r_state r_tree ?st)"
    using assms restore_state_failed(1) [of r_state ?st stack r_tree]
      restore_tree_failed(1) [of _ _ r_tree ?st stack]
    by blast
  then show ?thesis
    by (simp add: startup_def same_ui_def loadSubList_frame)
qed

lemma restore_render_failed:
  fixes st :: "'n app_state" and body body' :: string
  assumes "s_sub_name state = Some name" and "name \<noteq> []"
    and "renderSubTree stack
           (st\<lparr>requests := requests st @ [GetState, GetTree name], currentTree := Some t\<rparr>) =
         (st', Some e)"
  defines "res \<equiv> restoreSessionState stack (Fulfilled (Response True body (Some state)))
                    (Fulfilled (Response True body' (Some t))) st"
  shows "currentTree res = Some t" and "currentSelectedId res = None"
    and "detail res = DetailEmpty" and "alerts res = alerts st" and "console res = console st @ [e]"
proof -
  have r: "res = st'\<lparr>console := console st' @ [e]\<rparr>"
    using assms(1-3) by (simp add: res_def restoreSessionState_def Let_def restore_failed_def)
  note f = renderSubTree_result [OF assms(3)]
  show "currentTree res = Some t" using f(1) by (simp add: r)
  show "currentSelectedId res = None" using f(2) by (simp add: r)
  show "detail res = DetailEmpty" using f(3) by (simp add: r)
  show "alerts res = alerts st" using f(8) by (simp add: r)
  show "console res = console st @ [e]" using f(9) by (simp add: r)
qed

text \<open>
  Claim C8, as amended.  The listener of \<^verbatim>\<open>DOMContentLoaded\<close> asks for the session
  state exactly once.  When the answer has no \<^verbatim>\<open>sub_name\<close>, nothing else happens: no tree
  is requested and nothing is selected.  When it names a dataset, that tree is requested;
  once received and rendered it is the current tree, and the selection and the detail
  panel follow \<^verbatim>\<open>selected_id\<close> if the script finds one (a truthy value), the panel
  showing the node of that id when the tree has it.  When either request fails (it does
  not complete, the response is not 2xx, or its body cannot be decoded) the variables and
  the page are left as they were and no alert is raised; at startup that is the state
  without a dataset.  When it is the render of the received tree that throws, the
  exception is logged and no alert is raised either, but the tree received remains the
  current tree, with nothing selected.
\<close>

theorem C8_restore_session:
  fixes page st :: "'n app_state" and t :: "'n tree"
  shows
  "count_list (requests (startup stack r_subs r_state r_tree page)) GetState = 1 \<and>
   restoreSessionState stack
       (Fulfilled (Response True body (Some \<lparr>s_sub_name = None, s_selected_id = sel\<rparr>))) r_tree st =
     st\<lparr>requests := requests st @ [GetState]\<rparr> \<and>
   (\<forall>name st'. s_sub_name state = Some name \<and> name \<noteq> [] \<and>
        renderSubTree stack
          (st\<lparr>requests := requests st @ [GetState, GetTree name], currentTree := Some t\<rparr>) =
        (st', None) \<longrightarrow>
      (let res = restoreSessionState stack (Fulfilled (Response True body (Some state)))
                   (Fulfilled (Response True body' (Some t))) st
       in requests res = requests st @ [GetState, GetTree name] \<and>
          currentTree res = Some t \<and> tree_root res = tree_root st' \<and>
          (if truthy (s_selected_id state)
           then currentSelectedId res = s_selected_id state \<and>
                detail res = (case List.find (is_selected (s_selected_id state)) (nodes t) of
                                None \<Rightarrow> DetailEmpty | Some node \<Rightarrow> DetailForm node)
           else currentSelectedId res = None \<and> detail res = DetailEmpty))) \<and>
   (\<forall>name st' e. s_sub_name state = Some name \<and> name \<noteq> [] \<and>
        renderSubTree stack
          (st\<lparr>requests := requests st @ [GetState, GetTree name], currentTree := Some t\<rparr>) =
        (st', Some e) \<longrightarrow>
      (let res = restoreSessionState stack (Fulfilled (Response True body (Some state)))
                   (Fulfilled (Response True body' (Some t))) st
       in currentTree res = Some t \<and> currentSelectedId res = None \<and>
          detail res = DetailEmpty \<and> alerts res = alerts st \<and>
          console res = console st @ [e])) \<and>
   (fetch_failed r_state \<longrightarrow>
      same_ui st (restoreSessionState stack r_state r_tree st) \<and>
      requests (restoreSessionState stack r_state r_tree st) = requests st @ [GetState]) \<and>
   (\<forall>name. s_sub_name state = Some name \<and> name \<noteq> [] \<and> fetch_failed r_tree \<longrightarrow>
      same_ui st (restoreSessionState stack (Fulfilled (Response True body (Some state))) r_tree st) \<and>
      requests (restoreSessionState stack (Fulfilled (Response True body (Some state))) r_tree st) =
        requests st @ [GetState, GetTree name]) \<and>
   (fetch_failed r_state \<or>
      (\<exists>body state name. r_state = Fulfilled (Response True body (Some state)) \<and>
         s_sub_name state = Some name \<and> name \<noteq> [] \<and> fetch_failed r_tree) \<longrightarrow>
      currentTree (startup stack r_subs r_state r_tree page) = None \<and>
      currentSelectedId (startup stack r_subs r_state r_tree page) = None \<and>
      tree_root (startup stack r_subs r_state r_tree page) = tree_root page \<and>
      detail (startup stack r_subs r_state r_tree page) = detail page \<and>
      alerts (startup stack r_subs r_state r_tree page) = alerts page)"
proof (intro conjI allI impI)
  show "count_list (requests (startup stack r_subs r_state r_tree page)) GetState = 1"
    by (rule startup_restores_once)
  show "restoreSessionState stack
       (Fulfilled (Response True body (Some \<lparr>s_sub_name = None, s_selected_id = sel\<rparr>))) r_tree st =
     st\<lparr>requests := requests st @ [GetState]\<rparr>"
    by (rule restore_no_dataset)
next
  fix name st'
  assume a: "s_sub_name state = Some name \<and> name \<noteq> [] \<and>
        renderSubTree stack
          (st\<lparr>requests := requests st @ [GetState, GetTree name], currentTree := Some t\<rparr>) =
        (st', None)"
  then have n: "s_sub_name state = Some name" "name \<noteq> []"
    and r: "renderSubTree stack
          (st\<lparr>requests := requests st @ [GetState, GetTree name], currentTree := Some t\<rparr>) =
        (st', None)"
    by simp_all
  show "let res = restoreSessionState stack (Fulfilled (Response True body (Some state)))
                   (Fulfilled (Response True body' (Some t))) st
       in requests res = requests st @ [GetState, GetTree name] \<and>
          currentTree res = Some t \<and> tree_root res = tree_root st' \<and>
          (if truthy (s_selected_id state)
           then currentSelectedId res = s_selected_id state \<and>
                detail res = (case List.find (is_selected (s_selected_id state)) (nodes t) of
                                None \<Rightarrow> DetailEmpty | Some node \<Rightarrow> DetailForm node)
           else currentSelectedId res = None \<and> detail res = DetailEmpty)"
    using restore_success [OF n r, of body body']
    by (simp add: Let_def)
next
  fix name st' e
  assume a: "s_sub_name state = Some name \<and> name \<noteq> [] \<and>
        renderSubTree stack
          (st\<lparr>requests := requests st @ [GetState, GetTree name], currentTree := Some t\<rparr>) =
        (st', Some e)"
  then have n: "s_sub_name state = Some name" "name \<noteq> []"
    and r: "renderSubTree stack
          (st\<lparr>requests := requests st @ [GetState, GetTree name], currentTree := Some t\<rparr>) =
        (st', Some e)"
    by simp_all
  show "let res = restoreSessionState stack (Fulfilled (Response True body (Some state)))
                   (Fulfilled (Response True body' (Some t))) st
       in currentTree res = Some t \<and> currentSelectedId res = None \<and>
          detail res = DetailEmpty \<and> alerts res = alerts st \<and>
          console res = console st @ [e]"
    using restore_render_failed [OF n r, of body body']
    by (simp add: Let_def)
next
  assume "fetch_failed r_state"
  then show "same_ui st (restoreSessionState stack r_state r_tree st)"
    and "requests (restoreSessionState stack r_state r_tree st) = requests st @ [GetState]"
    by (rule restore_state_failed)+
next
  fix name
  assume "s_sub_name state = Some name \<and> name \<noteq> [] \<and> fetch_failed r_tree"
  then have a: "s_sub_name state = Some name" "name \<noteq> []" "fetch_failed r_tree"
    by simp_all
  show "same_ui st (restoreSessionState stack (Fulfilled (Response True body (Some state))) r_tree st)"
    using a by (rule restore_tree_failed)
  show "requests (restoreSessionState stack (Fulfilled (Response True body (Some state))) r_tree st) =
        requests st @ [GetState, GetTree name]"
    using a by (rule restore_tree_failed)
next
  assume a: "fetch_failed r_state \<or>
      (\<exists>body state name. r_state = Fulfilled (Response True body (Some state)) \<and>
         s_sub_name state = Some name \<and> name \<noteq> [] \<and> fetch_failed r_tree)"
  from startup_default [OF a, of stack r_subs page]
  show "currentTree (startup stack r_subs r_state r_tree page) = None"
    and "currentSelectedId (startup stack r_subs r_state r_tree page) = None"
    and "tree_root (startup stack r_subs r_state r_tree page) = tree_root page"
    and "detail (startup stack r_subs r_state r_tree page) = detail page"
    and "alerts (startup stack r_subs r_state r_tree page) = alerts page"
    by simp_all
qed

lemma restore_example_render:
  "renderSubTree 8
     (fresh_page\<lparr>requests := requests fresh_page @ [GetState, GetTree ''X''],
                 currentTree := Some example_tree\<rparr>) =
   (fst (renderSubTree 8
     (fresh_page\<lparr>requests := requests fresh_page @ [GetState, GetTree ''X''],
                 currentTree := Some example_tree\<rparr>)), None)"
  by code_simp

theorem C8_restore_session_witness:
  "count_list (requests (startup 8 Rejected Rejected tree_response fresh_page)) GetState = 1 \<and>
   fetch_failed (Rejected :: session fetch_result) \<and>
   currentTree (startup 8 Rejected Rejected tree_response fresh_page) = None \<and>
   currentTree (restoreSessionState 8 (Fulfilled (Response True [] (Some stored_session)))
                  tree_response fresh_page) = Some example_tree \<and>
   currentSelectedId (restoreSessionState 8 (Fulfilled (Response True [] (Some stored_session)))
                  tree_response fresh_page) = Some (JStr ''2'') \<and>
   detail (restoreSessionState 8 (Fulfilled (Response True [] (Some stored_session)))
                  tree_response fresh_page) = DetailForm (node_of (JNum 2) (Some (JNum 1)) (Some 0))"
proof -
  note C = C8_restore_session [where stack = 8 and r_subs = Rejected and r_state = Rejected
      and r_tree = tree_response and page = fresh_page and st = fresh_page
      and state = stored_session and t = example_tree and body = "[]" and body' = "[]"]
  have f: "fetch_failed (Rejected :: session fetch_result)"
    by (simp add: fetch_failed_def)
  have s: "s_sub_name stored_session = Some ''X''" "''X'' \<noteq> []"
    "truthy (s_selected_id stored_session)" "s_selected_id stored_session = Some (JStr ''2'')"
    by (simp_all add: stored_session_def)
  have n: "List.find (is_selected (Some (JStr ''2''))) (nodes example_tree) =
      Some (node_of (JNum 2) (Some (JNum 1)) (Some 0))"
    by code_simp
  have 1: "count_list (requests (startup 8 Rejected Rejected tree_response fresh_page)) GetState = 1"
    using C by (rule conjunct1)
  have 2: "currentTree (startup 8 Rejected Rejected tree_response fresh_page) = None"
    using C f by blast
  have 3: "let res = restoreSessionState 8 (Fulfilled (Response True [] (Some stored_session)))
                   (Fulfilled (Response True [] (Some example_tree))) fresh_page
       in requests res = requests fresh_page @ [GetState, GetTree ''X''] \<and>
          currentTree res = Some example_tree \<and>
          tree_root res = tree_root (fst (renderSubTree 8
     (fresh_page\<lparr>requests := requests fresh_page @ [GetState, GetTree ''X''],
                 currentTree := Some example_tree\<rparr>))) \<and>
          (if truthy (s_selected_id stored_session)
           then currentSelectedId res = s_selected_id stored_session \<and>
                detail res = (case List.find (is_selected (s_selected_id stored_session)) (nodes example_tree) of
                                None \<Rightarrow> DetailEmpty | Some node \<Rightarrow> DetailForm node)
           else currentSelectedId res = None \<and> detail res = DetailEmpty)"
    using C s(1,2) restore_example_render by blast
  show ?thesis
    using 1 2 3 f by (simp add: Let_def s n tree_response_def)
qed

lemma root_named_restore:
  "currentTree (startup stack subs_response session_response
      (Fulfilled (Response True [] (Some root_named_tree))) fresh_page) = Some root_named_tree"
  "console (startup stack subs_response session_response
      (Fulfilled (Response True [] (Some root_named_tree))) fresh_page) = [RangeError]"
proof -
  let ?st = "loadSubList subs_response
      (fresh_page\<lparr>currentTree := None, currentSelectedId := None, requests := []\<rparr>)"
  let ?st1 = "?st\<lparr>requests := requests ?st @ [GetState, GetTree ''X''],
                   currentTree := Some root_named_tree\<rparr>"
  have "snd (renderSubTree stack ?st1) = Some RangeError"
    by (simp add: renderSubTree_of_tree(2) root_named_tree_def root_named_overflow)
      (simp add: root_named_example_def)
  then have r: "renderSubTree stack ?st1 = (fst (renderSubTree stack ?st1), Some RangeError)"
    by (metis prod.collapse)
  have s: "s_sub_name stored_session = Some ''X''" "''X'' \<noteq> []"
    by (simp_all add: stored_session_def)
  have c: "console ?st = []"
    by (simp add: loadSubList_def subs_response_def fresh_page_def)
  from restore_render_failed(1,5) [OF s r, of "[]" "[]"] c
  show "currentTree (startup stack subs_response session_response
      (Fulfilled (Response True [] (Some root_named_tree))) fresh_page) = Some root_named_tree"
    and "console (startup stack subs_response session_response
      (Fulfilled (Response True [] (Some root_named_tree))) fresh_page) = [RangeError]"
    by (simp_all add: startup_def session_response_def)
qed

text \<open>
  Claim C8 as stated fails when the step that fails is the render.  The session names
  dataset \<^verbatim>\<open>X\<close>, both requests succeed, and the tree received has a root of id
  \<^verbatim>\<open>"ROOT"\<close>: \<^verbatim>\<open>renderSubTree\<close> throws whatever the size of the call stack, the exception is
  caught and logged, and the tree received stays in \<^verbatim>\<open>currentTree\<close>.
\<close>

theorem C8_counterexample:
  "\<forall>stack.
     currentTree (startup stack subs_response session_response
        (Fulfilled (Response True [] (Some root_named_tree))) fresh_page) = Some root_named_tree \<and>
     console (startup stack subs_response session_response
        (Fulfilled (Response True [] (Some root_named_tree))) fresh_page) = [RangeError]"
  by (simp add: root_named_restore)

subsection \<open>Rendering does not write to the tree\<close>

lemma array_push_frame:
  "array_push a r s = (s', err) \<Longrightarrow>
   next_ref s' = next_ref s \<and> (\<forall>x. x \<noteq> a \<longrightarrow> cells s' x = cells s x)"
  by (auto simp: array_push_def split: option.splits obj.splits)

lemma push_node_ref_frame:
  assumes "push_node_ref r (s, cm) = ((s', cm'), err)"
    and "fresh_buckets n0 cm" and "n0 \<le> next_ref s"
  shows "fresh_buckets n0 cm' \<and> n0 \<le> next_ref s' \<and> (\<forall>x < n0. cells s' x = cells s x)"
proof (cases "cells s r")
  case None
  with assms show ?thesis by (simp add: push_node_ref_def)
next
  case (Some ob)
  show ?thesis
  proof (cases ob)
    case (ArrayObj rs)
    with Some assms show ?thesis by (simp add: push_node_ref_def)
  next
    case (NodeObj n)
    show ?thesis
    proof (cases "map_of cm (pid_key n)")
      case found: (Some a)
      with Some NodeObj assms(1) have p: "array_push a r s = (s', err)" and c: "cm' = cm"
        by (auto simp: push_node_ref_def Let_def split: prod.splits)
      from found have "a \<in> snd ` set cm"
        by (force dest: map_of_SomeD)
      with assms(2) have "n0 \<le> a" by (auto simp: fresh_buckets_def)
      with array_push_frame [OF p] assms(2,3) c show ?thesis by auto
    next
      case None
      show ?thesis
      proof (cases "inherited (pid_key n)")
        case inh: (Some len)
        with None Some NodeObj assms show ?thesis
          by (simp add: push_node_ref_def Let_def)
      next
        case own: None
        with None Some NodeObj assms(1)
        have p: "array_push (next_ref s) r (fst (new_array s)) = (s', err)"
          and c: "cm' = cm @ [(pid_key n, next_ref s)]"
          by (auto simp: push_node_ref_def Let_def new_array_def split: prod.splits)
        from array_push_frame [OF p] have "next_ref s' = Suc (next_ref s)"
          and "\<forall>x. x \<noteq> next_ref s \<longrightarrow> cells s' x = cells s x"
          by (simp_all add: new_array_def)
        with assms(2,3) c show ?thesis by (auto simp: fresh_buckets_def)
      qed
    qed
  qed
qed

lemma group_refs_frame:
  "group_refs rs (s, cm) = ((s', cm'), err) \<Longrightarrow> fresh_buckets n0 cm \<Longrightarrow> n0 \<le> next_ref s \<Longrightarrow>
   fresh_buckets n0 cm' \<and> n0 \<le> next_ref s' \<and> (\<forall>x < n0. cells s' x = cells s x)"
proof (induction rs arbitrary: s cm)
  case Nil
  then show ?case by simp
next
  case (Cons r rs)
  obtain s1 cm1 e1 where p: "push_node_ref r (s, cm) = ((s1, cm1), e1)"
    by (metis surj_pair)
  from push_node_ref_frame [OF p Cons.prems(2,3)]
  have 1: "fresh_buckets n0 cm1" "n0 \<le> next_ref s1" "\<forall>x < n0. cells s1 x = cells s x"
    by simp_all
  show ?case
  proof (cases e1)
    case None
    with p Cons.prems(1) have "group_refs rs (s1, cm1) = ((s', cm'), err)" by simp
    from Cons.IH [OF this 1(1,2)] 1(3) show ?thesis by simp
  next
    case (Some e)
    with p Cons.prems(1) have "s' = s1" "cm' = cm1" by simp_all
    with 1 show ?thesis by simp
  qed
qed

lemma array_sort_frame: "x \<noteq> a \<Longrightarrow> cells (array_sort a s) x = cells s x"
  by (simp add: array_sort_def split: option.splits obj.splits)

lemma sort_bucket_refs_frame:
  "fresh_buckets n0 cm \<Longrightarrow> x < n0 \<Longrightarrow> cells (sort_bucket_refs cm s) x = cells s x"
proof (induction cm arbitrary: s)
  case Nil
  then show ?case by simp
next
  case (Cons ka cm)
  obtain k a where ka: "ka = (k, a)" by (cases ka)
  from Cons.prems have "n0 \<le> a" "fresh_buckets n0 cm"
    by (simp_all add: ka fresh_buckets_def)
  with Cons.IH [of "array_sort a s"] Cons.prems(2) show ?case
    by (simp add: ka array_sort_frame)
qed

lemma build_store_frame:
  assumes "build_store a s = ((s', cm), err)"
  shows "fresh_buckets (next_ref s) cm" and "\<forall>x < next_ref s. cells s' x = cells s x"
proof -
  have e: "fresh_buckets (next_ref s) []"
    by (simp add: fresh_buckets_def)
  have "fresh_buckets (next_ref s) cm \<and> (\<forall>x < next_ref s. cells s' x = cells s x)"
  proof (cases "\<exists>rs. cells s a = Some (ArrayObj rs)")
    case False
    with assms e show ?thesis
      by (auto simp: build_store_def split: option.splits obj.splits)
  next
    case True
    then obtain rs where rs: "cells s a = Some (ArrayObj rs)" ..
    obtain s1 cm1 e1 where g: "group_refs rs (s, []) = ((s1, cm1), e1)"
      by (metis surj_pair)
    from group_refs_frame [OF g e]
    have 1: "fresh_buckets (next_ref s) cm1" "\<forall>x < next_ref s. cells s1 x = cells s x"
      by simp_all
    show ?thesis
    proof (cases e1)
      case None
      with rs g assms have "cm = cm1" "s' = sort_bucket_refs cm1 s1"
        by (auto simp: build_store_def)
      with 1 show ?thesis by (simp add: sort_bucket_refs_frame)
    next
      case (Some e)
      with rs g assms have "cm = cm1" "s' = s1"
        by (auto simp: build_store_def)
      with 1 show ?thesis by simp
    qed
  qed
  then show "fresh_buckets (next_ref s) cm" and "\<forall>x < next_ref s. cells s' x = cells s x"
    by simp_all
qed

lemma build_store_read_array:
  assumes "build_store a s = ((s', cm), err)"
    and "cells s a = Some (ArrayObj rs)" and "a < next_ref s" and "\<forall>r \<in> set rs. r < next_ref s"
  shows "read_array s' a = read_array s a"
proof -
  note f = build_store_frame(2) [OF assms(1)]
  from f assms(2,3) have "cells s' a = Some (ArrayObj rs)" by simp
  moreover from f assms(4) have "map (cells s') rs = map (cells s) rs" by simp
  ultimately show ?thesis by (simp add: read_array_def assms(2))
qed

text \<open>
  Claim C10.  On the store, the grouping and sorting, completed or cut short by an
  exception, have written to no object that existed before: every bucket is a new array,
  and the array of nodes and each node object hold what they held, so the flat list reads
  the same, in the same order.  In the application state \<^verbatim>\<open>renderSubTree\<close> and
  \<^verbatim>\<open>adjustTreeLines\<close> leave \<^verbatim>\<open>currentTree\<close> as it is, what a render puts on the page and
  whether it throws are determined by \<^verbatim>\<open>currentTree\<close> alone, and rendering again after a
  render and its geometry pass gives the same page content.
\<close>

theorem C10_render_read_only:
  fixes s :: "'n store" and st st2 :: "'n app_state"
  shows
  "fresh_buckets (next_ref s) (snd (fst (build_store a s))) \<and>
   (\<forall>x < next_ref s. cells (fst (fst (build_store a s))) x = cells s x) \<and>
   (\<forall>rs. cells s a = Some (ArrayObj rs) \<and> a < next_ref s \<and> (\<forall>r \<in> set rs. r < next_ref s)
      \<longrightarrow> read_array (fst (fst (build_store a s))) a = read_array s a) \<and>
   currentTree (fst (renderSubTree stack st)) = currentTree st \<and>
   currentTree (adjustTreeLines mid st) = currentTree st \<and>
   (currentTree st2 = currentTree st \<longrightarrow>
      tree_root (fst (renderSubTree stack st2)) = tree_root (fst (renderSubTree stack st)) \<and>
      snd (renderSubTree stack st2) = snd (renderSubTree stack st)) \<and>
   tree_root (fst (renderSubTree stack (adjustTreeLines mid (fst (renderSubTree stack st))))) =
     tree_root (fst (renderSubTree stack st))"
proof -
  obtain s' cm err where b: "build_store a s = ((s', cm), err)"
    by (metis surj_pair)
  have A1: "fresh_buckets (next_ref s) (snd (fst (build_store a s)))"
    using build_store_frame(1) [OF b] by (simp add: b)
  have A2: "\<forall>x < next_ref s. cells (fst (fst (build_store a s))) x = cells s x"
    using build_store_frame(2) [OF b] by (simp add: b)
  have A3: "\<forall>rs. cells s a = Some (ArrayObj rs) \<and> a < next_ref s \<and> (\<forall>r \<in> set rs. r < next_ref s)
      \<longrightarrow> read_array (fst (fst (build_store a s))) a = read_array s a"
    using build_store_read_array [OF b] by (simp add: b)
  have B: "currentTree (fst (renderSubTree stack st)) = currentTree st"
    by (rule renderSubTree_frame)
  have C: "currentTree (adjustTreeLines mid st) = currentTree st"
    by (rule adjustTreeLines_frame)
  have D: "currentTree st2 = currentTree st \<longrightarrow>
      tree_root (fst (renderSubTree stack st2)) = tree_root (fst (renderSubTree stack st)) \<and>
      snd (renderSubTree stack st2) = snd (renderSubTree stack st)"
    by (simp add: renderSubTree_of_tree)
  have E: "tree_root (fst (renderSubTree stack (adjustTreeLines mid (fst (renderSubTree stack st))))) =
     tree_root (fst (renderSubTree stack st))"
    by (simp add: renderSubTree_of_tree renderSubTree_frame adjustTreeLines_frame)
  show ?thesis
    by (intro conjI A1 A2 A3 B C D E)
qed

lemma example_store_build:
  "\<exists>s'. build_store 2 example_store = ((s', [(''ROOT'', 3), (''1'', 4)]), None) \<and>
         cells s' 3 = Some (ArrayObj [0]) \<and> cells s' 4 = Some (ArrayObj [1])"
  by (simp add: build_store_def example_store_def push_node_ref_def array_push_def new_array_def
     array_sort_def build_eval)

theorem C10_render_read_only_witness:
  "map fst (snd (fst (build_store 2 example_store))) = [''ROOT'', ''1''] \<and>
   read_array (fst (fst (build_store 2 example_store))) 2 =
     [Some (NodeObj (node_of (JNum 1) None (Some 0))),
      Some (NodeObj (node_of (JNum 2) (Some (JNum 1)) (Some 0)))] \<and>
   currentTree (fst (renderSubTree 8 selected_state)) = Some example_tree"
proof -
  from example_store_build obtain s'
    where b: "build_store 2 example_store = ((s', [(''ROOT'', 3), (''1'', 4)]), None)" by blast
  note C = C10_render_read_only [where a = 2 and s = example_store and st = selected_state
      and ?st2.0 = selected_state and stack = 8]
  have h: "cells example_store 2 = Some (ArrayObj [0, 1]) \<and> 2 < next_ref example_store \<and>
      (\<forall>r \<in> set [0, 1]. r < next_ref example_store)"
    by (simp add: example_store_def)
  have r: "read_array example_store 2 =
        [Some (NodeObj (node_of (JNum 1) None (Some 0))),
         Some (NodeObj (node_of (JNum 2) (Some (JNum 1)) (Some 0)))]"
    by (simp add: read_array_def example_store_def)
  have 1: "read_array (fst (fst (build_store 2 example_store))) 2 = read_array example_store 2"
    using C h by blast
  have 2: "currentTree (fst (renderSubTree 8 selected_state)) = currentTree selected_state"
    using C by blast
  show ?thesis
    using b 1 2 r selected_state_vars by simp
qed

subsection \<open>The build on the store computes the index of the functional build\<close>

lemma those_map_Some:
  "(\<forall>x \<in> set xs. f x \<noteq> None) \<Longrightarrow> those (map f xs) = Some (map (the \<circ> f) xs)"
  by (induction xs) auto

lemma node_at_frame:
  "store_inv s0 s cm \<Longrightarrow> r < next_ref s0 \<Longrightarrow> node_at s r = node_at s0 r"
  by (simp add: store_inv_def node_at_def)

lemma read_bucket_inv:
  assumes inv: "store_inv s0 s cm" and b: "b \<in> snd ` set cm"
  obtains brs where "cells s b = Some (ArrayObj brs)"
    and "\<forall>r \<in> set brs. r < next_ref s0 \<and> node_at s0 r \<noteq> None"
    and "read_bucket s b = Some (map (the \<circ> node_at s0) brs)"
proof -
  from inv b obtain brs where c: "cells s b = Some (ArrayObj brs)"
    and n: "\<forall>r \<in> set brs. r < next_ref s0 \<and> node_at s0 r \<noteq> None"
    unfolding store_inv_def by blast
  have "map (node_at s) brs = map (node_at s0) brs"
    using n node_at_frame [OF inv] by simp
  then have "read_bucket s b = Some (map (the \<circ> node_at s0) brs)"
    using n by (simp add: read_bucket_def c those_map_Some)
  with c n that show ?thesis by blast
qed

lemma map_of_snd_inj:
  assumes "distinct (map snd cm)" and "map_of cm k = Some a" and "map_of cm k' = Some a"
  shows "k = k'"
proof -
  from assms(2,3) have "(k, a) \<in> set cm" "(k', a) \<in> set cm"
    by (auto dest: map_of_SomeD)
  with assms(1) show ?thesis
    by (metis distinct_map inj_on_def prod.sel(2) prod.inject)
qed

lemma push_existing_bucket:
  assumes inv: "store_inv s0 s cm" and r: "r < next_ref s0" and n: "node_at s0 r = Some n"
    and m: "map_of cm (pid_key n) = Some a"
  shows "\<exists>s'. push_node_ref r (s, cm) = ((s', cm), None) \<and> store_inv s0 s' cm \<and>
           push_node (index_of_store s cm) n = Inr (index_of_store s' cm)"
proof -
  from m have a: "a \<in> snd ` set cm" by (force dest: map_of_SomeD)
  from read_bucket_inv [OF inv a] obtain brs where c: "cells s a = Some (ArrayObj brs)"
    and bn: "\<forall>r \<in> set brs. r < next_ref s0 \<and> node_at s0 r \<noteq> None"
    and rb: "read_bucket s a = Some (map (the \<circ> node_at s0) brs)" .
  from inv a have a0: "next_ref s0 \<le> a" by (auto simp: store_inv_def)
  let ?s' = "s\<lparr>cells := (cells s)(a \<mapsto> ArrayObj (brs @ [r]))\<rparr>"
  from node_at_frame [OF inv r] n have cr: "cells s r = Some (NodeObj n)"
    by (auto simp: node_at_def split: option.splits obj.splits)
  have p: "push_node_ref r (s, cm) = ((?s', cm), None)"
    by (simp add: push_node_ref_def cr m array_push_def c)
  have inv': "store_inv s0 ?s' cm"
    using inv a0 r n bn c unfolding store_inv_def by auto
  have "index_of_store ?s' cm k =
      ((index_of_store s cm)(pid_key n \<mapsto> map (the \<circ> node_at s0) brs @ [n])) k" for k
  proof (cases "map_of cm k")
    case None
    with m show ?thesis by (auto simp: index_of_store_def)
  next
    case (Some b)
    then have b: "b \<in> snd ` set cm" by (force dest: map_of_SomeD)
    from read_bucket_inv [OF inv' b] obtain brs' where c': "cells ?s' b = Some (ArrayObj brs')"
      and rb': "read_bucket ?s' b = Some (map (the \<circ> node_at s0) brs')" .
    show ?thesis
    proof (cases "b = a")
      case True
      with Some m inv have "k = pid_key n"
        by (auto simp: store_inv_def intro: map_of_snd_inj)
      moreover from True c' have "brs' = brs @ [r]" by simp
      ultimately show ?thesis
        using Some True rb' n by (simp add: index_of_store_def)
    next
      case False
      with Some m have "k \<noteq> pid_key n" by auto
      moreover from False c' have "cells s b = Some (ArrayObj brs')" by simp
      with read_bucket_inv [OF inv b] have "read_bucket s b = Some (map (the \<circ> node_at s0) brs')"
        by (metis obj.inject(2) option.inject)
      ultimately show ?thesis
        using Some rb' by (simp add: index_of_store_def)
    qed
  qed
  then have "index_of_store ?s' cm =
      (index_of_store s cm)(pid_key n \<mapsto> map (the \<circ> node_at s0) brs @ [n])"
    by (rule ext)
  moreover have "index_of_store s cm (pid_key n) = Some (map (the \<circ> node_at s0) brs)"
    by (simp add: index_of_store_def m rb)
  ultimately have "push_node (index_of_store s cm) n = Inr (index_of_store ?s' cm)"
    by (simp add: push_node_def)
  with p inv' show ?thesis by blast
qed

lemma push_inherited_key:
  assumes inv: "store_inv s0 s cm" and r: "r < next_ref s0" and n: "node_at s0 r = Some n"
    and m: "map_of cm (pid_key n) = None" and i: "inherited (pid_key n) = Some len"
  shows "push_node_ref r (s, cm) = ((s, cm), Some TypeError) \<and>
         push_node (index_of_store s cm) n = Inl TypeError"
proof -
  from node_at_frame [OF inv r] n have cr: "cells s r = Some (NodeObj n)"
    by (auto simp: node_at_def split: option.splits obj.splits)
  show ?thesis
    by (simp add: push_node_ref_def cr m i push_node_def index_of_store_def)
qed

lemma push_new_bucket:
  assumes inv: "store_inv s0 s cm" and r: "r < next_ref s0" and n: "node_at s0 r = Some n"
    and m: "map_of cm (pid_key n) = None" and i: "inherited (pid_key n) = None"
  shows "\<exists>s' cm'. push_node_ref r (s, cm) = ((s', cm'), None) \<and> store_inv s0 s' cm' \<and>
           push_node (index_of_store s cm) n = Inr (index_of_store s' cm')"
proof -
  let ?a = "next_ref s"
  let ?s' = "s\<lparr>cells := (cells s)(?a \<mapsto> ArrayObj [r]), next_ref := Suc ?a\<rparr>"
  let ?cm' = "cm @ [(pid_key n, ?a)]"
  from node_at_frame [OF inv r] n have cr: "cells s r = Some (NodeObj n)"
    by (auto simp: node_at_def split: option.splits obj.splits)
  have p: "push_node_ref r (s, cm) = ((?s', ?cm'), None)"
    by (simp add: push_node_ref_def cr m i new_array_def array_push_def)
  from inv have old: "\<forall>b \<in> snd ` set cm. b < ?a" and le: "next_ref s0 \<le> ?a"
    by (auto simp: store_inv_def)
  have inv': "store_inv s0 ?s' ?cm'"
    using inv r n old le unfolding store_inv_def by (auto simp: less_Suc_eq)
  have "index_of_store ?s' ?cm' k = ((index_of_store s cm)(pid_key n \<mapsto> [n])) k" for k
  proof (cases "map_of cm k")
    case None
    show ?thesis
    proof (cases "k = pid_key n")
      case True
      have "read_bucket ?s' ?a = Some [n]"
        using cr le r by (simp add: read_bucket_def node_at_def)
      with True m show ?thesis
        by (simp add: index_of_store_def map_add_def)
    next
      case False
      with None show ?thesis
        by (simp add: index_of_store_def map_add_def)
    qed
  next
    case (Some b)
    with m have ne: "k \<noteq> pid_key n" by auto
    from Some have b: "b \<in> snd ` set cm" by (force dest: map_of_SomeD)
    then have b': "b \<in> snd ` set ?cm'" by simp
    from read_bucket_inv [OF inv b] obtain brs where c: "cells s b = Some (ArrayObj brs)"
      and rb: "read_bucket s b = Some (map (the \<circ> node_at s0) brs)" .
    from b old have "b \<noteq> ?a" by auto
    with c have "cells ?s' b = Some (ArrayObj brs)" by simp
    with read_bucket_inv [OF inv' b'] have "read_bucket ?s' b = Some (map (the \<circ> node_at s0) brs)"
      by (metis obj.inject(2) option.inject)
    with Some ne rb show ?thesis
      by (simp add: index_of_store_def map_add_def)
  qed
  then have "index_of_store ?s' ?cm' = (index_of_store s cm)(pid_key n \<mapsto> [n])"
    by (rule ext)
  moreover have "index_of_store s cm (pid_key n) = None"
    by (simp add: index_of_store_def m)
  ultimately have "push_node (index_of_store s cm) n = Inr (index_of_store ?s' ?cm')"
    by (simp add: push_node_def i)
  with p inv' show ?thesis by blast
qed

lemma push_node_ref_refines:
  assumes inv: "store_inv s0 s cm" and r: "r < next_ref s0" and n: "node_at s0 r = Some n"
  shows "(\<exists>s' cm'. push_node_ref r (s, cm) = ((s', cm'), None) \<and> store_inv s0 s' cm' \<and>
            push_node (index_of_store s cm) n = Inr (index_of_store s' cm')) \<or>
         (\<exists>sc e. push_node_ref r (s, cm) = (sc, Some e) \<and>
            push_node (index_of_store s cm) n = Inl e)"
proof (cases "map_of cm (pid_key n)")
  case (Some a)
  from push_existing_bucket [OF inv r n Some] show ?thesis by blast
next
  case None
  show ?thesis
  proof (cases "inherited (pid_key n)")
    case (Some len)
    from push_inherited_key [OF inv r n None Some] show ?thesis by blast
  next
    case own: None
    from push_new_bucket [OF inv r n None own] show ?thesis by blast
  qed
qed

lemma group_refs_refines:
  assumes "store_inv s0 s cm" and "list_all2 (\<lambda>r n. r < next_ref s0 \<and> node_at s0 r = Some n) rs ns"
  shows "(\<exists>s' cm'. group_refs rs (s, cm) = ((s', cm'), None) \<and> store_inv s0 s' cm' \<and>
            group_nodes ns (index_of_store s cm) = Inr (index_of_store s' cm')) \<or>
         (\<exists>sc e. group_refs rs (s, cm) = (sc, Some e) \<and>
            group_nodes ns (index_of_store s cm) = Inl e)"
  using assms(2,1)
proof (induction arbitrary: s cm rule: list_all2_induct)
  case Nil
  then show ?case by simp
next
  case (Cons r rs n ns)
  from Cons.hyps(1) have r: "r < next_ref s0" and n: "node_at s0 r = Some n" by simp_all
  from push_node_ref_refines [OF Cons.prems r n] show ?case
  proof
    assume "\<exists>s' cm'. push_node_ref r (s, cm) = ((s', cm'), None) \<and> store_inv s0 s' cm' \<and>
            push_node (index_of_store s cm) n = Inr (index_of_store s' cm')"
    then obtain s1 cm1 where p: "push_node_ref r (s, cm) = ((s1, cm1), None)"
      and i: "store_inv s0 s1 cm1"
      and f: "push_node (index_of_store s cm) n = Inr (index_of_store s1 cm1)"
      by blast
    from Cons.IH [OF i] show ?thesis
      by (simp add: p f)
  next
    assume "\<exists>sc e. push_node_ref r (s, cm) = (sc, Some e) \<and>
            push_node (index_of_store s cm) n = Inl e"
    then show ?thesis by auto
  qed
qed

lemma set_insert_sorted: "set (insert_sorted c x ys) = insert x (set ys)"
  by (induction ys) auto

lemma set_js_sort: "set (js_sort c xs) = set xs"
  by (induction xs) (simp_all add: js_sort_def set_insert_sorted)

lemma insert_sorted_map:
  "\<forall>z \<in> set (x # ys). g z = order_or_0 (f z) \<Longrightarrow>
   map f (insert_sorted (\<lambda>a b. g a - g b) x ys) = insert_sorted compare_order (f x) (map f ys)"
  by (induction ys) (simp_all add: compare_order_def)

lemma js_sort_map:
  "\<forall>z \<in> set xs. g z = order_or_0 (f z) \<Longrightarrow>
   map f (js_sort (\<lambda>a b. g a - g b) xs) = js_sort compare_order (map f xs)"
proof (induction xs)
  case Nil
  then show ?case by (simp add: js_sort_def)
next
  case (Cons x xs)
  then have IH: "map f (js_sort (\<lambda>a b. g a - g b) xs) = js_sort compare_order (map f xs)"
    by simp
  have "\<forall>z \<in> set (x # js_sort (\<lambda>a b. g a - g b) xs). g z = order_or_0 (f z)"
    using Cons.prems by (simp add: set_js_sort)
  from insert_sorted_map [OF this] IH show ?case
    by (simp add: js_sort_def)
qed

lemma array_sort_bucket:
  assumes inv: "store_inv s0 s cm" and b: "b \<in> snd ` set cm"
  shows "store_inv s0 (array_sort b s) cm"
    and "read_bucket (array_sort b s) b = map_option (js_sort compare_order) (read_bucket s b)"
    and "\<forall>b' \<in> snd ` set cm. b' \<noteq> b \<longrightarrow> read_bucket (array_sort b s) b' = read_bucket s b'"
proof -
  from read_bucket_inv [OF inv b] obtain brs where c: "cells s b = Some (ArrayObj brs)"
    and bn: "\<forall>r \<in> set brs. r < next_ref s0 \<and> node_at s0 r \<noteq> None"
    and rb: "read_bucket s b = Some (map (the \<circ> node_at s0) brs)" .
  let ?sorted = "js_sort (\<lambda>x y. order_at s x - order_at s y) brs"
  have s': "array_sort b s = s\<lparr>cells := (cells s)(b \<mapsto> ArrayObj ?sorted)\<rparr>"
    by (simp add: array_sort_def c)
  from inv b have b0: "next_ref s0 \<le> b" by (auto simp: store_inv_def)
  show inv': "store_inv s0 (array_sort b s) cm"
    using inv b0 bn c unfolding store_inv_def s' by (auto simp: set_js_sort)
  have "\<forall>z \<in> set brs. order_at s z = order_or_0 ((the \<circ> node_at s0) z)"
  proof
    fix z assume "z \<in> set brs"
    with bn have "z < next_ref s0" "node_at s0 z \<noteq> None" by auto
    with node_at_frame [OF inv, of z] show "order_at s z = order_or_0 ((the \<circ> node_at s0) z)"
      by (auto simp: order_at_def node_at_def split: option.splits obj.splits)
  qed
  from js_sort_map [OF this]
  have m: "map (the \<circ> node_at s0) ?sorted = js_sort compare_order (map (the \<circ> node_at s0) brs)" .
  from read_bucket_inv [OF inv' b] obtain brs' where c': "cells (array_sort b s) b = Some (ArrayObj brs')"
    and rb': "read_bucket (array_sort b s) b = Some (map (the \<circ> node_at s0) brs')" .
  from c' have "brs' = ?sorted" by (simp add: s')
  with rb' m show "read_bucket (array_sort b s) b = map_option (js_sort compare_order) (read_bucket s b)"
    by (simp add: rb)
  show "\<forall>b' \<in> snd ` set cm. b' \<noteq> b \<longrightarrow> read_bucket (array_sort b s) b' = read_bucket s b'"
  proof (intro ballI impI)
    fix b' assume b': "b' \<in> snd ` set cm" and ne: "b' \<noteq> b"
    from read_bucket_inv [OF inv b'] obtain xs where "cells s b' = Some (ArrayObj xs)"
      and 1: "read_bucket s b' = Some (map (the \<circ> node_at s0) xs)" .
    with ne have "cells (array_sort b s) b' = Some (ArrayObj xs)" by (simp add: s')
    with read_bucket_inv [OF inv' b']
    have "read_bucket (array_sort b s) b' = Some (map (the \<circ> node_at s0) xs)"
      by (metis obj.inject(2) option.inject)
    with 1 show "read_bucket (array_sort b s) b' = read_bucket s b'" by simp
  qed
qed

lemma sort_bucket_refs_buckets:
  "store_inv s0 s cm \<Longrightarrow> set todo \<subseteq> set cm \<Longrightarrow> distinct (map snd todo) \<Longrightarrow>
   store_inv s0 (sort_bucket_refs todo s) cm \<and>
   (\<forall>b \<in> snd ` set cm. read_bucket (sort_bucket_refs todo s) b =
      (if b \<in> snd ` set todo then map_option (js_sort compare_order) (read_bucket s b)
       else read_bucket s b))"
proof (induction todo arbitrary: s)
  case Nil
  then show ?case by simp
next
  case (Cons ka todo)
  obtain k a where ka: "ka = (k, a)" by (cases ka)
  from Cons.prems ka have a: "a \<in> snd ` set cm" and sub: "set todo \<subseteq> set cm"
    and d: "distinct (map snd todo)" and fresh: "a \<notin> snd ` set todo"
    by force+
  note S = array_sort_bucket [OF Cons.prems(1) a]
  from Cons.IH [OF S(1) sub d]
  have 1: "store_inv s0 (sort_bucket_refs todo (array_sort a s)) cm"
    and 2: "\<forall>b \<in> snd ` set cm. read_bucket (sort_bucket_refs todo (array_sort a s)) b =
      (if b \<in> snd ` set todo then map_option (js_sort compare_order) (read_bucket (array_sort a s) b)
       else read_bucket (array_sort a s) b)"
    by simp_all
  have "read_bucket (sort_bucket_refs (ka # todo) s) b =
      (if b \<in> snd ` set (ka # todo) then map_option (js_sort compare_order) (read_bucket s b)
       else read_bucket s b)" if b: "b \<in> snd ` set cm" for b
  proof (cases "b = a")
    case True
    from 2 a have "read_bucket (sort_bucket_refs todo (array_sort a s)) a =
      (if a \<in> snd ` set todo then map_option (js_sort compare_order) (read_bucket (array_sort a s) a)
       else read_bucket (array_sort a s) a)" by blast
    with fresh S(2) True show ?thesis by (simp add: ka)
  next
    case False
    from 2 b have "read_bucket (sort_bucket_refs todo (array_sort a s)) b =
      (if b \<in> snd ` set todo then map_option (js_sort compare_order) (read_bucket (array_sort a s) b)
       else read_bucket (array_sort a s) b)" by blast
    moreover from S(3) b False have "read_bucket (array_sort a s) b = read_bucket s b" by blast
    ultimately show ?thesis using False by (simp add: ka)
  qed
  with 1 show ?case by (simp add: ka)
qed

lemma sort_bucket_refs_refines:
  assumes "store_inv s0 s cm"
  shows "index_of_store (sort_bucket_refs cm s) cm = sort_buckets (index_of_store s cm)"
proof
  fix k
  from assms have d: "distinct (map snd cm)" by (simp add: store_inv_def)
  note S = sort_bucket_refs_buckets [OF assms subset_refl d]
  show "index_of_store (sort_bucket_refs cm s) cm k = sort_buckets (index_of_store s cm) k"
  proof (cases "map_of cm k")
    case None
    then show ?thesis by (simp add: index_of_store_def sort_buckets_def)
  next
    case (Some b)
    then have "b \<in> snd ` set cm" by (force dest: map_of_SomeD)
    with S have "read_bucket (sort_bucket_refs cm s) b =
        map_option (js_sort compare_order) (read_bucket s b)" by auto
    with Some show ?thesis by (simp add: index_of_store_def sort_buckets_def)
  qed
qed

text \<open>
  The two models agree.  When the array at \<open>a\<close> holds references, allocated before the
  build, to the nodes \<open>ns\<close>, the build on the store throws exactly when the functional
  build does, with the same exception, and otherwise its buckets read as the index of
  the functional build.
\<close>

lemma build_store_refines:
  assumes a: "cells s a = Some (ArrayObj rs)"
    and ns: "list_all2 (\<lambda>r n. r < next_ref s \<and> node_at s r = Some n) rs ns"
  shows "case build_store a s of
           ((s', cm), None) \<Rightarrow> build_childMap ns = Inr (index_of_store s' cm)
         | ((s', cm), Some e) \<Rightarrow> build_childMap ns = Inl e"
proof -
  have inv: "store_inv s s []"
    by (simp add: store_inv_def)
  have e: "index_of_store s [] = Map.empty"
    by (simp add: index_of_store_def)
  from group_refs_refines [OF inv ns] show ?thesis
  proof
    assume "\<exists>s' cm'. group_refs rs (s, []) = ((s', cm'), None) \<and> store_inv s s' cm' \<and>
            group_nodes ns (index_of_store s []) = Inr (index_of_store s' cm')"
    then obtain s' cm' where g: "group_refs rs (s, []) = ((s', cm'), None)"
      and i: "store_inv s s' cm'"
      and f: "group_nodes ns Map.empty = Inr (index_of_store s' cm')"
      by (auto simp: e)
    from sort_bucket_refs_refines [OF i] show ?thesis
      by (simp add: build_store_def a g build_childMap_def f)
  next
    assume "\<exists>sc e. group_refs rs (s, []) = (sc, Some e) \<and>
            group_nodes ns (index_of_store s []) = Inl e"
    then obtain s' cm' e' where "group_refs rs (s, []) = ((s', cm'), Some e')"
      and "group_nodes ns Map.empty = Inl e'"
      by (auto simp: e)
    then show ?thesis
      by (simp add: build_store_def a build_childMap_def)
  qed
qed

end
